theory Spec2Isabelle
  imports Complex_Main
begin

section \<open>Document classification analytics: data model\<close>

text \<open>
  The analytics code lives in the React components \<^verbatim>\<open>StatisticalAnalysis.tsx\<close> and
  \<^verbatim>\<open>DocumentList.tsx\<close>. JavaScript numbers are modelled as reals (every comparison
  of the source is then exact; arithmetic is the idealisation of IEEE doubles by
  reals). A confidence mapping is modelled by the list of its entries in the order
  \<^verbatim>\<open>Object.entries\<close> enumerates them (the keys of an object are distinct). Strings are
  lists of 8-bit characters and \<^verbatim>\<open>length\<close> counts them.
\<close>

type_synonym prediction = "(string \<times> real) list"

text \<open>\<^verbatim>\<open>DocumentType\<close> of \<^verbatim>\<open>services/api.ts\<close>; optional fields are options.\<close>

record document =
  doc_id :: nat
  filename :: string
  size :: "nat option"
  content :: "string option"
  category_prediction :: "prediction option"

definition VALID_CATEGORIES :: "string list" where
  "VALID_CATEGORIES =
     [''Technical Documentation'', ''Business Proposal'', ''Legal Document'',
      ''Academic Paper'', ''General Article'', ''Other'']"

subsection \<open>Top category\<close>

text \<open>
  The body of the three \<^verbatim>\<open>forEach\<close> loops that look for the highest confidence:
  \<^verbatim>\<open>if (confidence > topConfidence) { topCategory = category; topConfidence = confidence; }\<close>
\<close>

fun topStep :: "string \<times> real \<Rightarrow> string \<times> real \<Rightarrow> string \<times> real" where
  "topStep (category, confidence) (topCategory, topConfidence) =
     (if confidence > topConfidence then (category, confidence)
      else (topCategory, topConfidence))"

text \<open>\<^verbatim>\<open>DocumentList.tsx\<close>: starts from \<^verbatim>\<open>'Unclassified'\<close> and 0; a missing mapping
  leaves the start values.\<close>

definition docListTop :: "document \<Rightarrow> string \<times> real" where
  "docListTop doc =
     (case category_prediction doc of
        None \<Rightarrow> (''Unclassified'', 0)
      | Some p \<Rightarrow> fold topStep p (''Unclassified'', 0))"

text \<open>\<^verbatim>\<open>fetchTargetsAndCalculateAccuracy\<close>: starts from \<^verbatim>\<open>'Other'\<close> and 0, all entries.\<close>

definition predictedCategory :: "prediction \<Rightarrow> string" where
  "predictedCategory p = fst (fold topStep p (''Other'', 0))"

text \<open>\<^verbatim>\<open>fetchData\<close>: starts from \<^verbatim>\<open>'Other'\<close> and 0, and only entries whose key is one of
  \<^verbatim>\<open>VALID_CATEGORIES\<close> take part.\<close>

fun statsTopStep :: "string \<times> real \<Rightarrow> string \<times> real \<Rightarrow> string \<times> real" where
  "statsTopStep (category, confidence) t =
     (if category \<in> set VALID_CATEGORIES then topStep (category, confidence) t else t)"

definition statsTop :: "prediction \<Rightarrow> string" where
  "statsTop p = fst (fold statsTopStep p (''Other'', 0))"

text \<open>The specification's wording: the argmax of the confidence distribution, ties
  broken by registry declaration order (first declared wins).\<close>

definition spec_top_category :: "string list \<Rightarrow> prediction \<Rightarrow> string option" where
  "spec_top_category registry p =
     find (\<lambda>c. \<exists>v \<in> set (map snd p). map_of p c = Some v \<and> (\<forall>w \<in> set (map snd p). w \<le> v)) registry"

text \<open>What the loops compute: \<open>t\<close> is the first entry of \<open>q\<close>, in the order of the
  entries, whose confidence is positive and maximal.\<close>

definition is_first_max :: "prediction \<Rightarrow> string \<times> real \<Rightarrow> bool" where
  "is_first_max q t =
     (\<exists>i < length q. q ! i = t \<and> 0 < snd t \<and> (\<forall>e \<in> set q. snd e \<le> snd t) \<and>
        (\<forall>j < i. snd (q ! j) < snd t))"

definition tied_prediction :: prediction where
  "tied_prediction = [(''Legal Document'', 1/2), (''Technical Documentation'', 1/2)]"

definition tied_document :: document where
  "tied_document = \<lparr> doc_id = 1, filename = ''a.pdf'', size = None, content = None,
     category_prediction = Some tied_prediction \<rparr>"

definition uniform_prediction :: prediction where
  "uniform_prediction =
     [(''Technical Documentation'', 1/6), (''Business Proposal'', 1/6), (''Legal Document'', 1/6),
      (''Academic Paper'', 1/6), (''General Article'', 1/6), (''Other'', 1/6)]"

definition uniform_document :: document where
  "uniform_document = \<lparr> doc_id = 2, filename = ''u.pdf'', size = None, content = None,
     category_prediction = Some uniform_prediction \<rparr>"

subsection \<open>PCA projection\<close>

text \<open>
  \<^verbatim>\<open>performPCA\<close> of \<^verbatim>\<open>StatisticalAnalysis.tsx\<close>. The input rows hold finite numbers
  (reals). Inside, a value is a \<open>real option\<close>: \<open>None\<close> stands for a value that is not a
  finite number (\<^verbatim>\<open>NaN\<close>, \<^verbatim>\<open>Infinity\<close>, or \<^verbatim>\<open>undefined\<close> met by arithmetic), which is
  what JavaScript produces for a read past the end of an array and for a division by
  zero. Sums, differences and products with such a value are again not finite.
  Reading \<^verbatim>\<open>data[0].length\<close> when \<^verbatim>\<open>data\<close> is empty throws a \<^verbatim>\<open>TypeError\<close>.
\<close>

datatype js_error = TypeError

type_synonym jsnum = "real option"

fun js_add :: "jsnum \<Rightarrow> jsnum \<Rightarrow> jsnum" where
  "js_add (Some a) (Some b) = Some (a + b)"
| "js_add _ _ = None"

fun js_sub :: "jsnum \<Rightarrow> jsnum \<Rightarrow> jsnum" where
  "js_sub (Some a) (Some b) = Some (a - b)"
| "js_sub _ _ = None"

fun js_mul :: "jsnum \<Rightarrow> jsnum \<Rightarrow> jsnum" where
  "js_mul (Some a) (Some b) = Some (a * b)"
| "js_mul _ _ = None"

text \<open>Division by a length expression; a zero divisor gives \<^verbatim>\<open>NaN\<close> or \<^verbatim>\<open>Infinity\<close>.\<close>

fun js_div :: "jsnum \<Rightarrow> int \<Rightarrow> jsnum" where
  "js_div (Some a) n = (if n = 0 then None else Some (a / real_of_int n))"
| "js_div None n = None"

text \<open>\<^verbatim>\<open>row[j]\<close> on an array of numbers and on an array of computed values.\<close>

definition js_read :: "real list \<Rightarrow> nat \<Rightarrow> jsnum" where
  "js_read row j = (if j < length row then Some (row ! j) else None)"

definition js_nth :: "jsnum list \<Rightarrow> nat \<Rightarrow> jsnum" where
  "js_nth xs j = (if j < length xs then xs ! j else None)"

text \<open>Step 1, the inner loop: \<^verbatim>\<open>mean[j] += data[i][j] / data.length\<close> for every \<open>j\<close>.\<close>

definition pca_add_row :: "int \<Rightarrow> nat \<Rightarrow> real list \<Rightarrow> jsnum list \<Rightarrow> jsnum list" where
  "pca_add_row n dimensions row mean =
     fold (\<lambda>j m. m[j := js_add (js_nth m j) (js_div (js_read row j) n)]) [0..<dimensions] mean"

definition pca_mean :: "real list list \<Rightarrow> nat \<Rightarrow> jsnum list" where
  "pca_mean data dimensions =
     fold (pca_add_row (int (length data)) dimensions) data (replicate dimensions (Some 0))"

definition pca_centered :: "real list list \<Rightarrow> jsnum list \<Rightarrow> jsnum list list" where
  "pca_centered data mean =
     map (\<lambda>row. map (\<lambda>(val, i). js_sub (Some val) (js_nth mean i)) (zip row [0..<length row])) data"

text \<open>Step 2: the covariance matrix, each entry divided by \<^verbatim>\<open>centeredData.length - 1\<close>.\<close>

definition pca_covMatrix :: "jsnum list list \<Rightarrow> nat \<Rightarrow> jsnum list list" where
  "pca_covMatrix centeredData dimensions =
     map (\<lambda>i. map (\<lambda>j.
         js_div (fold (\<lambda>k sum. js_add sum (js_mul (js_nth (centeredData ! k) i)
                                                   (js_nth (centeredData ! k) j)))
                   [0..<length centeredData] (Some 0))
                (int (length centeredData) - 1))
       [0..<dimensions]) [0..<dimensions]"

text \<open>Steps 3 and 4: the unit vectors of the first two axes, and
  \<^verbatim>\<open>point.reduce((sum, val, i) => sum + pc[i] * val, 0)\<close>.\<close>

definition pca_project :: "jsnum list \<Rightarrow> jsnum list \<Rightarrow> jsnum" where
  "pca_project pc point =
     fold (\<lambda>(val, i) sum. js_add sum (js_mul (js_nth pc i) val))
       (zip point [0..<length point]) (Some 0)"

definition performPCA :: "real list list \<Rightarrow> js_error + jsnum list list" where
  "performPCA data =
     (case data of
        [] \<Rightarrow> Inl TypeError
      | row0 # _ \<Rightarrow>
          let dimensions = length row0;
              mean = pca_mean data dimensions;
              centeredData = pca_centered data mean;
              covMatrix = pca_covMatrix centeredData dimensions;
              pc1 = map (\<lambda>i. if i = 0 then Some 1 else Some 0) [0..<dimensions];
              pc2 = map (\<lambda>i. if i = 1 then Some 1 else Some 0) [0..<dimensions]
          in Inr (map (\<lambda>point. [pca_project pc1 point, pca_project pc2 point]) centeredData))"

text \<open>The covariance matrix that a call of \<^verbatim>\<open>performPCA\<close> computes on the way.\<close>

definition performPCA_covMatrix :: "real list list \<Rightarrow> jsnum list list" where
  "performPCA_covMatrix data =
     (let dimensions = length (hd data);
          mean = pca_mean data dimensions;
          centeredData = pca_centered data mean
      in pca_covMatrix centeredData dimensions)"

text \<open>The simple map the projection is compared with: each row goes to the pair of its
  first two coordinates, each minus the mean of its column.\<close>

definition column_mean :: "real list list \<Rightarrow> nat \<Rightarrow> real" where
  "column_mean data j = (\<Sum>row \<leftarrow> data. row ! j / real (length data))"

definition first_two_centered :: "real list list \<Rightarrow> jsnum list list" where
  "first_two_centered data =
     map (\<lambda>row. [Some (row ! 0 - column_mean data 0), Some (row ! 1 - column_mean data 1)]) data"




subsection \<open>Category statistics\<close>

text \<open>
  The statistics part of \<^verbatim>\<open>fetchData\<close> (\<^verbatim>\<open>StatisticalAnalysis.tsx\<close>), as a function of the
  documents that \<^verbatim>\<open>getDocuments()\<close> returned. The five dictionaries are maps; \<open>or0 m k\<close>
  is \<^verbatim>\<open>(m[k] || 0)\<close>.
\<close>

definition or0 :: "('k \<rightharpoonup> 'a::zero) \<Rightarrow> 'k \<Rightarrow> 'a" where
  "or0 m k = (case m k of None \<Rightarrow> 0 | Some v \<Rightarrow> v)"

record stats_acc =
  counts :: "string \<rightharpoonup> nat"
  totalScores :: "string \<rightharpoonup> real"
  categoryOccurrences :: "string \<rightharpoonup> nat"
  totalSizes :: "string \<rightharpoonup> real"
  totalLengths :: "string \<rightharpoonup> nat"
  featureVectors :: "real list list"
  docCategories :: "string list"
  docFilenames :: "string list"

text \<open>\<^verbatim>\<open>VALID_CATEGORIES.forEach(category => { counts[category] = 0; ... })\<close>\<close>

definition init_acc :: stats_acc where
  "init_acc =
     fold (\<lambda>category a. a\<lparr> counts := (counts a)(category \<mapsto> 0),
                             totalScores := (totalScores a)(category \<mapsto> 0),
                             categoryOccurrences := (categoryOccurrences a)(category \<mapsto> 0),
                             totalSizes := (totalSizes a)(category \<mapsto> 0),
                             totalLengths := (totalLengths a)(category \<mapsto> 0) \<rparr>)
       VALID_CATEGORIES
       \<lparr> counts = Map.empty, totalScores = Map.empty, categoryOccurrences = Map.empty,
         totalSizes = Map.empty, totalLengths = Map.empty, featureVectors = [],
         docCategories = [], docFilenames = [] \<rparr>"

text \<open>The body of \<^verbatim>\<open>Object.entries(doc.category_prediction).forEach\<close> in \<^verbatim>\<open>fetchData\<close>:
  the running top category, \<^verbatim>\<open>totalScores\<close> and \<^verbatim>\<open>categoryOccurrences\<close>.\<close>

fun predStep :: "string \<times> real \<Rightarrow>
    (string \<times> real) \<times> (string \<rightharpoonup> real) \<times> (string \<rightharpoonup> nat) \<Rightarrow>
    (string \<times> real) \<times> (string \<rightharpoonup> real) \<times> (string \<rightharpoonup> nat)" where
  "predStep (category, confidence) (t, ts, occ) =
     (if category \<in> set VALID_CATEGORIES
      then (topStep (category, confidence) t,
            ts(category \<mapsto> or0 ts category + confidence),
            occ(category \<mapsto> or0 occ category + 1))
      else (t, ts, occ))"

text \<open>\<^verbatim>\<open>doc.filename || 'Unnamed document'\<close>\<close>

definition displayName :: "document \<Rightarrow> string" where
  "displayName doc = (if filename doc = [] then ''Unnamed document'' else filename doc)"

text \<open>The updates both branches share: the counter of the chosen category, the size in
  KB (\<^verbatim>\<open>if (doc.size)\<close>) and the content length (\<^verbatim>\<open>if (doc.content)\<close>).\<close>

definition addToCategory :: "string \<Rightarrow> real list \<Rightarrow> document \<Rightarrow> stats_acc \<Rightarrow> stats_acc" where
  "addToCategory topCategory featureVector doc a =
     a\<lparr> featureVectors := featureVectors a @ [featureVector],
        docCategories := docCategories a @ [topCategory],
        docFilenames := docFilenames a @ [displayName doc],
        counts := (counts a)(topCategory \<mapsto> or0 (counts a) topCategory + 1),
        totalSizes :=
          (case size doc of
             Some s \<Rightarrow> if s \<noteq> 0
                       then (totalSizes a)(topCategory \<mapsto> or0 (totalSizes a) topCategory + real s / 1024)
                       else totalSizes a
           | None \<Rightarrow> totalSizes a),
        totalLengths :=
          (case content doc of
             Some c \<Rightarrow> if c \<noteq> []
                       then (totalLengths a)(topCategory \<mapsto> or0 (totalLengths a) topCategory + length c)
                       else totalLengths a
           | None \<Rightarrow> totalLengths a) \<rparr>"

text \<open>One round of \<^verbatim>\<open>data.forEach(doc => ...)\<close>. The first branch is taken when the mapping
  is present and has at least one key.\<close>

definition processDocument :: "document \<Rightarrow> stats_acc \<Rightarrow> stats_acc" where
  "processDocument doc a =
     (case category_prediction doc of
        Some (e # es) \<Rightarrow>
          (let featureVector = map (\<lambda>cat. or0 (map_of (e # es)) cat) VALID_CATEGORIES;
               (t, ts, occ) = fold predStep (e # es)
                                ((''Other'', 0), totalScores a, categoryOccurrences a)
           in addToCategory (fst t) featureVector doc
                (a\<lparr> totalScores := ts, categoryOccurrences := occ \<rparr>))
      | _ \<Rightarrow> addToCategory ''Other'' (map (\<lambda>_. 0) VALID_CATEGORIES) doc a)"

text \<open>The guarded averages. A dictionary read that finds nothing is \<^verbatim>\<open>undefined\<close>: the
  comparison \<^verbatim>\<open>undefined > 0\<close> is false, and a quotient with it is \<^verbatim>\<open>NaN\<close> (\<open>None\<close>).\<close>

definition gt0 :: "nat option \<Rightarrow> bool" where
  "gt0 x = (case x of Some n \<Rightarrow> 0 < n | None \<Rightarrow> False)"

definition js_quot :: "real option \<Rightarrow> nat option \<Rightarrow> jsnum" where
  "js_quot a b =
     (case (a, b) of
        (Some x, Some n) \<Rightarrow> if n = 0 then None else Some (x / real n)
      | _ \<Rightarrow> None)"

record report =
  categoryCounts :: "string \<rightharpoonup> nat"
  categoryAverageScores :: "string \<rightharpoonup> jsnum"
  categoryAverageSizes :: "string \<rightharpoonup> jsnum"
  categoryAverageLengths :: "string \<rightharpoonup> jsnum"
  pcaData :: "((jsnum \<times> jsnum) list \<times> string list \<times> string list) option"

definition avgScores :: "stats_acc \<Rightarrow> string \<rightharpoonup> jsnum" where
  "avgScores a =
     fold (\<lambda>category m. m(category \<mapsto>
             (if gt0 (categoryOccurrences a category)
              then js_quot (totalScores a category) (categoryOccurrences a category)
              else Some 0)))
       VALID_CATEGORIES Map.empty"

definition avgSizes :: "stats_acc \<Rightarrow> string \<rightharpoonup> jsnum" where
  "avgSizes a =
     fold (\<lambda>category m. m(category \<mapsto>
             (if gt0 (counts a category)
              then js_quot (totalSizes a category) (counts a category)
              else Some 0)))
       VALID_CATEGORIES Map.empty"

definition avgLengths :: "stats_acc \<Rightarrow> string \<rightharpoonup> jsnum" where
  "avgLengths a =
     fold (\<lambda>category m. m(category \<mapsto>
             (if gt0 (counts a category)
              then js_quot (map_option real (totalLengths a category)) (counts a category)
              else Some 0)))
       VALID_CATEGORIES Map.empty"

text \<open>The whole computation. \<^verbatim>\<open>performPCA\<close> is called only under
  \<^verbatim>\<open>featureVectors.length >= 2\<close>; an exception it throws is caught by the handler of
  \<^verbatim>\<open>fetchData\<close>, and then none of the setters that follow runs.\<close>

definition fetchData_stats :: "document list \<Rightarrow> js_error + report" where
  "fetchData_stats data =
     (let a = fold processDocument data init_acc;
          r = \<lparr> categoryCounts = counts a, categoryAverageScores = avgScores a,
                categoryAverageSizes = avgSizes a, categoryAverageLengths = avgLengths a,
                pcaData = None \<rparr>
      in if 2 \<le> length (featureVectors a)
         then (case performPCA (featureVectors a) of
                 Inl e \<Rightarrow> Inl e
               | Inr reducedData \<Rightarrow>
                   Inr (r\<lparr> pcaData := Some (map (\<lambda>coords. (js_nth coords 0, js_nth coords 1)) reducedData,
                                            docCategories a, docFilenames a) \<rparr>))
         else Inr r)"

text \<open>The category a document is counted under.\<close>

definition docTop :: "document \<Rightarrow> string" where
  "docTop doc = (case category_prediction doc of Some (e # es) \<Rightarrow> statsTop (e # es) | _ \<Rightarrow> ''Other'')"

text \<open>The row \<^verbatim>\<open>fetchData\<close> pushes for a document: one column per entry of
  \<^verbatim>\<open>VALID_CATEGORIES\<close>, holding \<^verbatim>\<open>doc.category_prediction[cat] || 0\<close>, or all zeros when
  the document has no mapping.\<close>

definition featureVector :: "document \<Rightarrow> real list" where
  "featureVector doc =
     (case category_prediction doc of
        Some (e # es) \<Rightarrow> map (\<lambda>cat. or0 (map_of (e # es)) cat) VALID_CATEGORIES
      | _ \<Rightarrow> map (\<lambda>_. 0) VALID_CATEGORIES)"

text \<open>The specification's wording of the simplified projection: the two raw axes of
  highest variance.\<close>

definition column_variance :: "real list list \<Rightarrow> nat \<Rightarrow> real" where
  "column_variance data j =
     (\<Sum>row \<leftarrow> data. (row ! j - column_mean data j)\<^sup>2) / (real (length data) - 1)"

definition spec_highest_variance_axes :: "real list list \<Rightarrow> nat list" where
  "spec_highest_variance_axes data =
     take 2 (sort_key (\<lambda>j. - column_variance data j) [0..<length (hd data)])"

definition spec_highest_variance_projection :: "real list list \<Rightarrow> jsnum list list" where
  "spec_highest_variance_projection data =
     map (\<lambda>row. map (\<lambda>j. Some (row ! j - column_mean data j)) (spec_highest_variance_axes data)) data"


definition pca_doc_a :: document where
  "pca_doc_a = \<lparr> doc_id = 1, filename = ''a.pdf'', size = None, content = None,
     category_prediction = Some [(''Technical Documentation'', 1/4), (''Business Proposal'', 1/4),
                                 (''Legal Document'', 1/2)] \<rparr>"

definition pca_doc_b :: document where
  "pca_doc_b = \<lparr> doc_id = 2, filename = ''b.pdf'', size = None, content = None,
     category_prediction = Some [(''Technical Documentation'', 1/4), (''Business Proposal'', 1/4),
                                 (''Academic Paper'', 1/2)] \<rparr>"

text \<open>The quantities the report is compared with: a document's size in KB and content
  length as the loop adds them, the confidences a document's mapping holds for a
  category, and the guarded average of a list.\<close>

definition sizeKB :: "document \<Rightarrow> real" where
  "sizeKB doc = (case size doc of Some s \<Rightarrow> real s / 1024 | None \<Rightarrow> 0)"

definition contentLength :: "document \<Rightarrow> nat" where
  "contentLength doc = (case content doc of Some c \<Rightarrow> length c | None \<Rightarrow> 0)"

definition scoresOf :: "string \<Rightarrow> document \<Rightarrow> real list" where
  "scoresOf c doc =
     (case category_prediction doc of
        Some (e # es) \<Rightarrow> map snd (filter (\<lambda>x. fst x = c) (e # es))
      | _ \<Rightarrow> [])"

definition average :: "real list \<Rightarrow> real" where
  "average xs = (if xs = [] then 0 else sum_list xs / real (length xs))"

definition stats_doc :: document where
  "stats_doc = \<lparr> doc_id = 1, filename = ''a.pdf'', size = Some 2048, content = Some ''hello'',
     category_prediction = Some [(''Technical Documentation'', 3/4), (''Legal Document'', 1/4)] \<rparr>"

definition unclassified_doc :: document where
  "unclassified_doc = \<lparr> doc_id = 2, filename = ''b.pdf'', size = Some 1024, content = None,
     category_prediction = None \<rparr>"

subsection \<open>Accuracy against reference labels\<close>


















subsection \<open>Word clouds\<close>

text \<open>
  Text is a list of 8-bit characters. \<^verbatim>\<open>toLowerCase\<close> is modelled on ASCII letters; a
  character outside ASCII is neither \<^verbatim>\<open>\w\<close> nor kept by the replacement, so it becomes a
  separator in the model as it does in the source.
\<close>

definition isUpper :: "char \<Rightarrow> bool" where
  "isUpper c = (65 \<le> (of_char c :: nat) \<and> (of_char c :: nat) \<le> 90)"

definition isLower :: "char \<Rightarrow> bool" where
  "isLower c = (97 \<le> (of_char c :: nat) \<and> (of_char c :: nat) \<le> 122)"

definition isDigit :: "char \<Rightarrow> bool" where
  "isDigit c = (48 \<le> (of_char c :: nat) \<and> (of_char c :: nat) \<le> 57)"

text \<open>\<^verbatim>\<open>\w\<close> is \<^verbatim>\<open>[A-Za-z0-9_]\<close>; \<^verbatim>\<open>\s\<close> on ASCII is space, tab, line feed, vertical tab,
  form feed and carriage return.\<close>

definition isWordChar :: "char \<Rightarrow> bool" where
  "isWordChar c = (isUpper c \<or> isLower c \<or> isDigit c \<or> c = CHR ''_'')"

definition isSpaceChar :: "char \<Rightarrow> bool" where
  "isSpaceChar c = (c = CHR '' '' \<or> (9 \<le> (of_char c :: nat) \<and> (of_char c :: nat) \<le> 13))"

definition toLowerChar :: "char \<Rightarrow> char" where
  "toLowerChar c = (if isUpper c then char_of ((of_char c :: nat) + 32) else c)"

definition toLowerCase :: "string \<Rightarrow> string" where
  "toLowerCase s = map toLowerChar s"

text \<open>\<^verbatim>\<open>s.split(/\s+/)\<close>: the pieces between maximal runs of white space; a run at the
  start or at the end leaves an empty piece there.\<close>

fun split_ws :: "string \<Rightarrow> string \<Rightarrow> string list"
  and skip_ws :: "string \<Rightarrow> string list" where
  "split_ws cur [] = [rev cur]"
| "split_ws cur (c # cs) = (if isSpaceChar c then rev cur # skip_ws cs else split_ws (c # cur) cs)"
| "skip_ws [] = [[]]"
| "skip_ws (c # cs) = (if isSpaceChar c then skip_ws cs else split_ws [c] cs)"

definition STOP_WORDS :: "string list" where
  "STOP_WORDS =
     [''a'', ''an'', ''the'', ''and'', ''but'', ''or'', ''for'', ''nor'', ''on'', ''at'', ''to'', ''by'',
      ''from'', ''of'', ''in'', ''this'', ''that'', ''these'', ''those'', ''with'', ''as'', ''is'',
      ''are'', ''was'', ''were'', ''be'', ''been'', ''being'', ''have'', ''has'', ''had'', ''do'',
      ''does'', ''did'', ''shall'', ''will'', ''should'', ''would'', ''may'', ''might'', ''must'',
      ''can'', ''could'', ''i'', ''you'', ''he'', ''she'', ''it'', ''we'', ''they'', ''their'', ''its'',
      ''our'', ''your'', ''my'', ''his'', ''her'', ''who'', ''what'', ''where'', ''which'', ''when'',
      ''why'', ''how'', ''all'', ''any'', ''both'', ''each'', ''not'', ''only'', ''very'', ''more'',
      ''most'', ''some'', ''such'', ''no'', ''nor'', ''too'', ''then'', ''than'', ''also'', ''if'',
      ''so'', ''just'', ''about'', ''upon'', ''through'', ''before'', ''after'', ''above'', ''below'',
      ''over'', ''under'', ''again'', ''once'']"

text \<open>\<^verbatim>\<open>/^\d+$/.test(word)\<close>\<close>

definition isNumeric :: "string \<Rightarrow> bool" where
  "isNumeric word = (word \<noteq> [] \<and> list_all isDigit word)"

definition preprocessText :: "string \<Rightarrow> string list" where
  "preprocessText text =
     (let lowerText = toLowerCase text;
          words = split_ws [] (map (\<lambda>c. if isWordChar c \<or> isSpaceChar c then c else CHR '' '') lowerText)
      in filter (\<lambda>word. 2 < length word \<and> word \<notin> set STOP_WORDS \<and> \<not> isNumeric word) words)"

text \<open>\<^verbatim>\<open>s.includes(w)\<close>: \<open>w\<close> occurs in \<open>s\<close> as a contiguous piece.\<close>

fun js_includes :: "string \<Rightarrow> string \<Rightarrow> bool" where
  "js_includes [] w = (w = [])"
| "js_includes (c # cs) w = (take (length w) (c # cs) = w \<or> js_includes cs w)"










text \<open>\<^verbatim>\<open>doc.content && doc.content.length > 0\<close>\<close>

definition hasContent :: "document \<Rightarrow> bool" where
  "hasContent doc = (case content doc of Some c \<Rightarrow> c \<noteq> [] | None \<Rightarrow> False)"

text \<open>\<^verbatim>\<open>docsWithContent.map(doc => doc.content).join(' ')\<close>\<close>

fun join_space :: "string list \<Rightarrow> string" where
  "join_space [] = []"
| "join_space [s] = s"
| "join_space (s # t # rest) = s @ CHR '' '' # join_space (t # rest)"










definition combinedText :: "document list \<Rightarrow> string" where
  "combinedText members = join_space (map (\<lambda>doc. the (content doc)) (filter hasContent members))"



definition cloud_doc_a :: document where
  "cloud_doc_a = \<lparr> doc_id = 1, filename = ''a.pdf'', size = None,
     content = Some ''Legal terms: the contract, legal contract'', category_prediction = None \<rparr>"



subsection \<open>Duplicate uploads: the error objects\<close>

text \<open>
  The error values are untyped (\<^verbatim>\<open>any\<close>) in \<^verbatim>\<open>uploadFiles\<close>, \<^verbatim>\<open>formatErrorMessage\<close> and
  \<^verbatim>\<open>DuplicateFileError\<close>, so they are modelled as JSON-like values. \<open>getProp\<close> is \<^verbatim>\<open>x.p\<close>
  (a \<^verbatim>\<open>TypeError\<close> on \<^verbatim>\<open>null\<close> and \<^verbatim>\<open>undefined\<close>), \<open>optProp\<close> is \<^verbatim>\<open>x?.p\<close>, \<open>truthy\<close> is the
  conversion to a boolean, \<open>js_or\<close> is \<^verbatim>\<open>a || b\<close>.
\<close>

datatype json = JUndefined | JNull | JBool bool | JNum int | JStr string | JObj "(string \<times> json) list"

fun optProp :: "json \<Rightarrow> string \<Rightarrow> json" where
  "optProp (JObj kvs) p = (case map_of kvs p of Some v \<Rightarrow> v | None \<Rightarrow> JUndefined)"
| "optProp _ p = JUndefined"

fun getProp :: "json \<Rightarrow> string \<Rightarrow> js_error + json" where
  "getProp JUndefined p = Inl TypeError"
| "getProp JNull p = Inl TypeError"
| "getProp v p = Inr (optProp v p)"

fun truthy :: "json \<Rightarrow> bool" where
  "truthy JUndefined = False"
| "truthy JNull = False"
| "truthy (JBool b) = b"
| "truthy (JNum n) = (n \<noteq> 0)"
| "truthy (JStr s) = (s \<noteq> [])"
| "truthy (JObj kvs) = True"

definition js_or :: "json \<Rightarrow> json \<Rightarrow> json" where
  "js_or a b = (if truthy a then a else b)"

text \<open>\<^verbatim>\<open>typeof v === 'object'\<close> holds for objects and for \<^verbatim>\<open>null\<close>.\<close>

fun typeof_object :: "json \<Rightarrow> bool" where
  "typeof_object (JObj kvs) = True"
| "typeof_object JNull = True"
| "typeof_object _ = False"

function show_nat :: "nat \<Rightarrow> string" where
  "show_nat n = (if n < 10 then [char_of (48 + n)] else show_nat (n div 10) @ [char_of (48 + n mod 10)])"
  by pat_completeness auto
termination
  by (relation "measure id") auto

text \<open>\<^verbatim>\<open>String(v)\<close>, also the conversion inside a template literal.\<close>

fun js_String :: "json \<Rightarrow> string" where
  "js_String JUndefined = ''undefined''"
| "js_String JNull = ''null''"
| "js_String (JBool b) = (if b then ''true'' else ''false'')"
| "js_String (JNum n) = (if n < 0 then CHR ''-'' # show_nat (nat (- n)) else show_nat (nat n))"
| "js_String (JStr s) = s"
| "js_String (JObj kvs) = ''[object Object]''"

datatype ErrorCategory = VALIDATION | NETWORK | AUTHENTICATION | FILE_PROCESSING | SERVER | UNKNOWN

text \<open>\<^verbatim>\<open>AppError\<close>, with the fields \<^verbatim>\<open>message\<close>, \<^verbatim>\<open>category\<close>, \<^verbatim>\<open>code\<close>, \<^verbatim>\<open>details\<close> and
  \<^verbatim>\<open>originalError\<close>; a field that is not set is \<^verbatim>\<open>undefined\<close>.\<close>

record AppError =
  app_message :: json
  app_category :: ErrorCategory
  app_code :: json
  app_details :: json
  app_originalError :: json

text \<open>The three values \<^verbatim>\<open>formatErrorMessage\<close> extracts from the response with the same
  chain of conditionals (\<^verbatim>\<open>errorMessage\<close>, \<^verbatim>\<open>errorCode\<close>, \<^verbatim>\<open>details\<close>).\<close>

definition extractField :: "json \<Rightarrow> json \<Rightarrow> string \<Rightarrow> json \<Rightarrow> js_error + json" where
  "extractField errorDetail responseData field fallback =
     (if typeof_object errorDetail then getProp errorDetail field
      else if typeof_object responseData then getProp responseData field
      else Inr fallback)"

text \<open>The \<^verbatim>\<open>switch\<close> on the response status, after the three values are known.\<close>

definition statusCase :: "json \<Rightarrow> json \<Rightarrow> json \<Rightarrow> json \<Rightarrow> AppError \<Rightarrow> AppError" where
  "statusCase status errorMessage errorCode details appError =
     (if status = JNum 400 then
        (if errorCode = JStr ''FILE_TOO_LARGE'' then
           appError\<lparr> app_category := FILE_PROCESSING,
             app_message := js_or errorMessage (JStr ''The file exceeds the maximum allowed size of 10MB.''),
             app_code := js_or errorCode (JStr ''BAD_REQUEST'') \<rparr>
         else if errorCode = JStr ''TEXT_EXTRACTION_FAILED'' then
           appError\<lparr> app_category := FILE_PROCESSING,
             app_message := js_or errorMessage
               (JStr ''Could not extract text from the file. The file may be corrupted or password protected.''),
             app_code := js_or errorCode (JStr ''BAD_REQUEST'') \<rparr>
         else
           appError\<lparr> app_category := VALIDATION,
             app_message := js_or errorMessage (JStr ''The request was invalid. Please check your input.''),
             app_code := js_or errorCode (JStr ''BAD_REQUEST'') \<rparr>)
      else if status = JNum 401 \<or> status = JNum 403 then
        appError\<lparr> app_category := AUTHENTICATION,
          app_message := js_or errorMessage (JStr ''You do not have permission to perform this action.''),
          app_code := js_or errorCode (JStr ''UNAUTHORIZED'') \<rparr>
      else if status = JNum 404 then
        appError\<lparr> app_message := js_or errorMessage (JStr ''The requested resource was not found.''),
          app_code := js_or errorCode (JStr ''NOT_FOUND'') \<rparr>
      else if status = JNum 409 then
        appError\<lparr> app_category := VALIDATION,
          app_message := js_or errorMessage (JStr ''A duplicate resource was detected.''),
          app_code := js_or errorCode (JStr ''DUPLICATE_RESOURCE''),
          app_details := js_or details (JObj [(''duplicate'', JBool True)]) \<rparr>
      else if status = JNum 413 then
        appError\<lparr> app_category := FILE_PROCESSING,
          app_message := js_or errorMessage (JStr ''The file is too large to upload.''),
          app_code := js_or errorCode (JStr ''FILE_TOO_LARGE'') \<rparr>
      else if status = JNum 415 then
        appError\<lparr> app_category := FILE_PROCESSING,
          app_message := js_or errorMessage (JStr ''The file type is not supported.''),
          app_code := js_or errorCode (JStr ''UNSUPPORTED_FILE_TYPE'') \<rparr>
      else if status = JNum 429 then
        appError\<lparr> app_message := js_or errorMessage (JStr ''Too many requests. Please try again later.''),
          app_code := js_or errorCode (JStr ''RATE_LIMIT_EXCEEDED'') \<rparr>
      else if status = JNum 500 \<or> status = JNum 502 \<or> status = JNum 503 \<or> status = JNum 504 then
        appError\<lparr> app_category := SERVER,
          app_message := js_or errorMessage (JStr ''The server encountered an error. Please try again later.''),
          app_code := js_or errorCode (JStr ''SERVER_ERROR'') \<rparr>
      else
        appError\<lparr> app_message := js_or errorMessage (JStr ''An unexpected error occurred''),
          app_code := js_or errorCode (JStr ''UNKNOWN_ERROR'') \<rparr>)"

text \<open>The branch for errors that are not Axios errors: the message is searched for known
  phrases.\<close>

definition messageCase :: "string \<Rightarrow> AppError \<Rightarrow> AppError" where
  "messageCase msg appError =
     (if js_includes msg ''PDF extraction error'' then
        appError\<lparr> app_category := FILE_PROCESSING,
          app_message := JStr ''Unable to extract text from PDF. The file may be corrupted or password-protected.'',
          app_code := JStr ''PDF_EXTRACTION_ERROR'' \<rparr>
      else if js_includes msg ''DOCX extraction error'' then
        appError\<lparr> app_category := FILE_PROCESSING,
          app_message := JStr ''Unable to extract text from DOCX. The file may be corrupted.'',
          app_code := JStr ''DOCX_EXTRACTION_ERROR'' \<rparr>
      else if js_includes msg ''Error extracting text'' then
        appError\<lparr> app_category := FILE_PROCESSING,
          app_message := JStr ''Unable to process the document. Please check the file format.'',
          app_code := JStr ''TEXT_EXTRACTION_ERROR'' \<rparr>
      else if js_includes msg ''file size exceeds'' then
        appError\<lparr> app_category := FILE_PROCESSING,
          app_message := JStr ''The file is too large. Maximum file size is 10MB.'',
          app_code := JStr ''FILE_SIZE_EXCEEDED'' \<rparr>
      else if js_includes msg ''file type'' then
        appError\<lparr> app_category := FILE_PROCESSING,
          app_message := JStr ''File type not supported. Please upload PDF, DOC, DOCX, or TXT files.'',
          app_code := JStr ''INVALID_FILE_TYPE'' \<rparr>
      else appError\<lparr> app_message := JStr msg \<rparr>)"

text \<open>\<^verbatim>\<open>formatErrorMessage\<close> of the error service. \<^verbatim>\<open>axios.isAxiosError\<close> holds for an object
  whose \<^verbatim>\<open>isAxiosError\<close> property is \<^verbatim>\<open>true\<close>.\<close>

definition formatErrorMessage :: "json \<Rightarrow> js_error + AppError" where
  "formatErrorMessage error =
     (let appError = \<lparr> app_message = JStr ''An unexpected error occurred'', app_category = UNKNOWN,
                        app_code = JUndefined, app_details = JUndefined, app_originalError = JUndefined \<rparr>
      in if optProp error ''isAxiosError'' = JBool True then
           (if \<not> truthy (optProp error ''response'') then
              Inr (appError\<lparr> app_category := NETWORK,
                     app_message := JStr ''Unable to connect to the server. Please check your internet connection.'',
                     app_originalError := error \<rparr>)
            else
              (let responseData = optProp (optProp error ''response'') ''data'';
                   errorDetail = js_or (optProp responseData ''detail'') responseData
               in case extractField errorDetail responseData ''message''
                         (JStr (js_String (js_or responseData (optProp error ''message'')))) of
                    Inl e \<Rightarrow> Inl e
                  | Inr errorMessage \<Rightarrow>
                 (case extractField errorDetail responseData ''error'' (JStr ''UNKNOWN_ERROR'') of
                    Inl e \<Rightarrow> Inl e
                  | Inr errorCode \<Rightarrow>
                 (case extractField errorDetail responseData ''details'' JNull of
                    Inl e \<Rightarrow> Inl e
                  | Inr details \<Rightarrow>
                      (let appError1 = statusCase (optProp (optProp error ''response'') ''status'')
                                         errorMessage errorCode details appError;
                           appError2 = (if truthy details then appError1\<lparr> app_details := details \<rparr>
                                        else appError1)
                       in Inr (appError2\<lparr> app_originalError := error \<rparr>))))))
         else (case optProp error ''message'' of
                 JStr msg \<Rightarrow> if msg \<noteq> [] then Inr ((messageCase msg appError)\<lparr> app_originalError := error \<rparr>)
                             else Inr appError
               | _ \<Rightarrow> Inr appError))"

text \<open>
  The \<^verbatim>\<open>DuplicateFileError\<close> component: \<open>None\<close> when it renders nothing, otherwise the
  identifier the link points to and the file name it shows.
\<close>

definition DuplicateFileError :: "AppError \<Rightarrow> (json \<times> json) option" where
  "DuplicateFileError error =
     (let duplicateId = js_or (optProp (app_details error) ''duplicate_id'')
                              (optProp (optProp (app_details error) ''data'') ''duplicate_id'');
          duplicateFilename = js_or (optProp (app_details error) ''duplicate_filename'')
                                    (optProp (optProp (app_details error) ''data'') ''duplicate_filename'')
      in if \<not> truthy duplicateId \<or> \<not> truthy duplicateFilename then None
         else Some (duplicateId, duplicateFilename))"

text \<open>
  The \<^verbatim>\<open>catch\<close> block of \<^verbatim>\<open>uploadFiles\<close> for the file named \<open>name\<close> of MIME type \<open>ftype\<close>,
  from the state the function set up before the loop. The error state holds either an
  error object built here or the caught value itself (\<^verbatim>\<open>setError(err)\<close>).
\<close>

datatype error_state = Built AppError | Caught json

record upload_state =
  isDuplicateFile :: bool
  error_value :: "error_state option"
  fileValidationError :: "string option"

definition uploadFiles_catch :: "string \<Rightarrow> string \<Rightarrow> json \<Rightarrow> js_error + upload_state" where
  "uploadFiles_catch name ftype err =
     (let st = \<lparr> isDuplicateFile = False, error_value = None, fileValidationError = None \<rparr>
      in case getProp err ''status'' of
           Inl e \<Rightarrow> Inl e
         | Inr status \<Rightarrow>
             if status = JNum 409 \<or>
                optProp (optProp (optProp err ''originalError'') ''response'') ''status'' = JNum 409
             then
               (let responseData = js_or (optProp (optProp (optProp err ''originalError'') ''response'') ''data'')
                                         (optProp err ''data'');
                    duplicateInfo =
                      (if truthy (optProp (optProp responseData ''data'') ''duplicate_filename'')
                       then '' as \"'' @ js_String (optProp (optProp responseData ''data'') ''duplicate_filename'') @ ''\"''
                       else [])
                in Inr (st\<lparr> isDuplicateFile := True,
                          error_value := Some (Built
                            \<lparr> app_message = JStr (''Document \"'' @ name @ ''\" has already been uploaded'' @ duplicateInfo @
                                               ''. Each document can only be uploaded once.''),
                              app_category = VALIDATION, app_code = JUndefined, app_details = JUndefined,
                              app_originalError = err \<rparr>) \<rparr>))
             else if optProp err ''code'' = JStr ''FILE_TOO_LARGE'' \<or>
                     optProp (optProp (optProp (optProp err ''originalError'') ''response'') ''data'') ''error'' =
                       JStr ''FILE_TOO_LARGE''
             then Inr (st\<lparr> fileValidationError :=
                         Some (''File \"'' @ name @ ''\" is too large. Maximum size is 10MB.'') \<rparr>)
             else if optProp err ''code'' = JStr ''TEXT_EXTRACTION_FAILED'' \<or>
                     optProp (optProp (optProp (optProp err ''originalError'') ''response'') ''data'') ''error'' =
                       JStr ''TEXT_EXTRACTION_FAILED''
             then
               (if ftype = ''application/pdf''
                then Inr (st\<lparr> fileValidationError :=
                            Some (''Could not extract text from \"'' @ name @
                                  ''\". The file may be corrupted, password protected, or contain only scanned images.'') \<rparr>)
                else Inr (st\<lparr> fileValidationError :=
                            Some (''Could not extract text from \"'' @ name @
                                  ''\". The file may be corrupted or in an unsupported format.'') \<rparr>))
             else Inr (st\<lparr> error_value := Some (Caught err) \<rparr>))"

text \<open>A 409 response whose body names the existing document under \<^verbatim>\<open>data\<close>, the place
  \<^verbatim>\<open>uploadFiles\<close> looks for it, and the Axios error made from it.\<close>

definition duplicate_body :: json where
  "duplicate_body =
     JObj [(''status'', JStr ''error''), (''message'', JStr ''Duplicate file''),
           (''data'', JObj [(''duplicate_id'', JNum 7), (''duplicate_filename'', JStr ''a.pdf'')])]"

definition duplicate_error :: json where
  "duplicate_error =
     JObj [(''isAxiosError'', JBool True), (''message'', JStr ''Request failed with status code 409''),
           (''status'', JNum 409),
           (''response'', JObj [(''status'', JNum 409), (''data'', duplicate_body)])]"

definition duplicate_error_with_details :: json where
  "duplicate_error_with_details =
     JObj [(''isAxiosError'', JBool True), (''message'', JStr ''Request failed with status code 409''),
           (''status'', JNum 409),
           (''response'', JObj [(''status'', JNum 409),
              (''data'', JObj [(''message'', JStr ''Duplicate file''),
                 (''details'', JObj [(''duplicate_id'', JNum 7), (''duplicate_filename'', JStr ''a.pdf'')])])])]"

section \<open>Top category: the fold picks the first strict maximum\<close>

lemma fold_topStep_snoc:
  "fold topStep (p @ [e]) init = topStep e (fold topStep p init)"
  by simp

lemma fold_topStep_char:
  "fold topStep p (c0, v0) = (c, v) \<Longrightarrow>
     (\<forall>e \<in> set p. snd e \<le> v) \<and> v0 \<le> v \<and>
     ((c, v) = (c0, v0) \<and> (\<forall>e \<in> set p. snd e \<le> v0) \<or>
      (\<exists>i < length p. p ! i = (c, v) \<and> v0 < v \<and> (\<forall>j < i. snd (p ! j) < v)))"
proof (induction p arbitrary: c v rule: rev_induct)
  case Nil
  then show ?case by simp
next
  case (snoc e p)
  obtain c1 v1 where mid: "fold topStep p (c0, v0) = (c1, v1)"
    by (cases "fold topStep p (c0, v0)")
  obtain ce ve where e: "e = (ce, ve)" by (cases e)
  note IH = snoc.IH [OF mid]
  from snoc.prems mid e have res: "(c, v) = topStep (ce, ve) (c1, v1)" by simp
  show ?case
  proof (cases "ve > v1")
    case True
    with res have cv: "c = ce" "v = ve" by simp_all
    have a: "\<forall>x \<in> set (p @ [e]). snd x \<le> v"
      using IH True cv e by fastforce
    have b: "v0 \<le> v" using IH True cv by simp
    have c: "(p @ [e]) ! length p = (c, v)" using cv e by simp
    have d: "v0 < v" using IH True cv by simp
    have f: "\<forall>j < length p. snd ((p @ [e]) ! j) < v"
    proof (intro allI impI)
      fix j assume j: "j < length p"
      then have "snd (p ! j) \<le> v1" using IH nth_mem by blast
      with j True cv show "snd ((p @ [e]) ! j) < v" by (simp add: nth_append)
    qed
    from c d f have "\<exists>i < length (p @ [e]). (p @ [e]) ! i = (c, v) \<and> v0 < v \<and>
        (\<forall>j < i. snd ((p @ [e]) ! j) < v)"
      by (intro exI [of _ "length p"]) simp
    with a b show ?thesis by blast
  next
    case False
    with res have cv: "c = c1" "v = v1" by simp_all
    have a: "\<forall>x \<in> set (p @ [e]). snd x \<le> v"
      using IH False cv e by auto
    have b: "v0 \<le> v" using IH cv by simp
    from IH cv have "(c, v) = (c0, v0) \<and> (\<forall>e \<in> set p. snd e \<le> v0) \<or>
      (\<exists>i < length p. p ! i = (c, v) \<and> v0 < v \<and> (\<forall>j < i. snd (p ! j) < v))" by simp
    then show ?thesis
    proof
      assume h: "(c, v) = (c0, v0) \<and> (\<forall>e \<in> set p. snd e \<le> v0)"
      then have "\<forall>x \<in> set (p @ [e]). snd x \<le> v0"
        using False cv e by auto
      with h a b show ?thesis by blast
    next
      assume "\<exists>i < length p. p ! i = (c, v) \<and> v0 < v \<and> (\<forall>j < i. snd (p ! j) < v)"
      then obtain i where i: "i < length p" "p ! i = (c, v)" "v0 < v"
        "\<forall>j < i. snd (p ! j) < v" by blast
      then have "i < length (p @ [e]) \<and> (p @ [e]) ! i = (c, v) \<and> v0 < v \<and>
          (\<forall>j < i. snd ((p @ [e]) ! j) < v)"
        by (simp add: nth_append)
      with a b show ?thesis by blast
    qed
  qed
qed

lemma fold_topStep_none_positive:
  assumes "\<not> (\<exists>e \<in> set q. 0 < snd e)"
  shows "fold topStep q (d, 0) = (d, 0)"
proof -
  obtain c v where cv: "fold topStep q (d, 0) = (c, v)"
    by (cases "fold topStep q (d, 0)")
  note ch = fold_topStep_char [OF cv]
  from assms have "\<forall>e \<in> set q. snd e \<le> 0" by fastforce
  with ch have "(c, v) = (d, 0)"
    by (metis nth_mem not_less snd_conv)
  with cv show ?thesis by simp
qed

lemma fold_topStep_first_max:
  assumes pos: "\<exists>e \<in> set q. 0 < snd e"
  shows "is_first_max q (fold topStep q (d, 0))"
proof -
  obtain c v where cv: "fold topStep q (d, 0) = (c, v)"
    by (cases "fold topStep q (d, 0)")
  note ch = fold_topStep_char [OF cv]
  from pos ch have "0 < v" by fastforce
  with ch have "\<exists>i < length q. q ! i = (c, v) \<and> 0 < v \<and> (\<forall>j < i. snd (q ! j) < v)"
    by auto
  with ch cv show ?thesis by (auto simp: is_first_max_def)
qed

lemma fold_statsTopStep_filter:
  "fold statsTopStep p t = fold topStep (filter (\<lambda>e. fst e \<in> set VALID_CATEGORIES) p) t"
proof (induction p arbitrary: t)
  case Nil
  then show ?case by simp
next
  case (Cons e p)
  obtain c v where e: "e = (c, v)" by (cases e)
  show ?case using Cons.IH e by simp
qed

lemma map_of_nth_distinct:
  assumes "distinct (map fst p)" and "j < length p"
  shows "map_of p (fst (p ! j)) = Some (snd (p ! j))"
proof -
  have "(fst (p ! j), snd (p ! j)) \<in> set p" using assms(2) by simp
  with assms(1) show ?thesis by (rule map_of_is_SomeI)
qed

lemma spec_top_category_first_max:
  assumes ord: "map fst p = registry" and dist: "distinct registry" and fm: "is_first_max p t"
  shows "spec_top_category registry p = Some (fst t)"
proof -
  from fm obtain i where i: "i < length p" "p ! i = t" "0 < snd t"
    "\<forall>e \<in> set p. snd e \<le> snd t" "\<forall>j < i. snd (p ! j) < snd t"
    by (auto simp: is_first_max_def)
  let ?P = "\<lambda>c. \<exists>v \<in> set (map snd p). map_of p c = Some v \<and> (\<forall>w \<in> set (map snd p). w \<le> v)"
  have dp: "distinct (map fst p)" using ord dist by simp
  have len: "length registry = length p" using ord by (metis length_map)
  have reg: "registry ! j = fst (p ! j)" if "j < length p" for j
    using ord that by (metis nth_map)
  have Pi: "?P (registry ! i)"
  proof -
    have "map_of p (registry ! i) = Some (snd t)"
      using map_of_nth_distinct [OF dp i(1)] reg [OF i(1)] i(2) by simp
    moreover have "snd t \<in> set (map snd p)" using i(1,2) by (metis nth_mem length_map nth_map)
    moreover have "\<forall>w \<in> set (map snd p). w \<le> snd t" using i(4) by auto
    ultimately show ?thesis by blast
  qed
  have notP: "\<not> ?P (registry ! j)" if "j < i" for j
  proof
    assume "?P (registry ! j)"
    then obtain v where v: "map_of p (registry ! j) = Some v" "\<forall>w \<in> set (map snd p). w \<le> v"
      by blast
    have j: "j < length p" using that i(1) by simp
    have "v = snd (p ! j)"
      using map_of_nth_distinct [OF dp j] reg [OF j] v(1) by simp
    moreover have "snd t \<in> set (map snd p)" using i(1,2) by (metis nth_mem length_map nth_map)
    ultimately have "snd t \<le> snd (p ! j)" using v(2) by blast
    with i(5) that show False by fastforce
  qed
  have "find ?P registry = Some (registry ! i)"
    unfolding find_Some_iff using Pi notP i(1) len by auto
  then show ?thesis
    unfolding spec_top_category_def using reg [OF i(1)] i(2) by simp
qed


lemma filter_valid_registry_order:
  assumes "map fst p = VALID_CATEGORIES"
  shows "filter (\<lambda>e. fst e \<in> set VALID_CATEGORIES) p = p"
proof -
  have "\<forall>e \<in> set p. fst e \<in> set (map fst p)" by simp
  then show ?thesis unfolding assms by simp
qed

text \<open>
  C1 (amended). For a document with a confidence mapping \<open>p\<close>, the top category shown in
  the document list and used in the accuracy comparison is the first entry of positive,
  maximal confidence in the mapping's own entry order (a tie goes to the entry
  enumerated first, not to the category declared first in the registry); the statistics
  do the same over the entries whose key is a registered category. When no confidence
  is positive the result is the start value, \<open>Unclassified\<close> in the document list and
  \<open>Other\<close> elsewhere. When the mapping lists exactly the registered categories in
  registry order and some confidence is positive, all three agree with the argmax whose
  ties are broken by registry order.
\<close>

theorem top_category_first_entry_maximum:
  assumes "category_prediction doc = Some p"
  shows "(if \<exists>e \<in> set p. 0 < snd e
          then is_first_max p (docListTop doc) \<and> (\<exists>v. is_first_max p (predictedCategory p, v))
          else docListTop doc = (''Unclassified'', 0) \<and> predictedCategory p = ''Other'') \<and>
         (if \<exists>e \<in> set (filter (\<lambda>e. fst e \<in> set VALID_CATEGORIES) p). 0 < snd e
          then \<exists>v. is_first_max (filter (\<lambda>e. fst e \<in> set VALID_CATEGORIES) p) (statsTop p, v)
          else statsTop p = ''Other'') \<and>
         (map fst p = VALID_CATEGORIES \<and> (\<exists>e \<in> set p. 0 < snd e) \<longrightarrow>
            spec_top_category VALID_CATEGORIES p = Some (fst (docListTop doc)) \<and>
            spec_top_category VALID_CATEGORIES p = Some (predictedCategory p) \<and>
            spec_top_category VALID_CATEGORIES p = Some (statsTop p))"
proof -
  let ?q = "filter (\<lambda>e. fst e \<in> set VALID_CATEGORIES) p"
  have dl: "docListTop doc = fold topStep p (''Unclassified'', 0)"
    using assms by (simp add: docListTop_def)
  have A: "is_first_max p (docListTop doc) \<and> (\<exists>v. is_first_max p (predictedCategory p, v))"
    if pos: "\<exists>e \<in> set p. 0 < snd e"
  proof -
    have "is_first_max p (fold topStep p (''Other'', 0))"
      using fold_topStep_first_max [OF pos] .
    then have "is_first_max p (predictedCategory p, snd (fold topStep p (''Other'', 0)))"
      by (simp add: predictedCategory_def)
    moreover have "is_first_max p (docListTop doc)"
      using fold_topStep_first_max [OF pos] dl by simp
    ultimately show ?thesis by blast
  qed
  have B: "docListTop doc = (''Unclassified'', 0) \<and> predictedCategory p = ''Other''"
    if neg: "\<not> (\<exists>e \<in> set p. 0 < snd e)"
  proof -
    have "fold topStep p (''Unclassified'', 0) = (''Unclassified'', 0)"
      using fold_topStep_none_positive [OF neg] .
    moreover have "fold topStep p (''Other'', 0) = (''Other'', 0)"
      using fold_topStep_none_positive [OF neg] .
    ultimately show ?thesis using dl by (simp add: predictedCategory_def)
  qed
  have st: "statsTop p = fst (fold topStep ?q (''Other'', 0))"
    by (simp add: statsTop_def fold_statsTopStep_filter)
  have C: "\<exists>v. is_first_max ?q (statsTop p, v)" if pos: "\<exists>e \<in> set ?q. 0 < snd e"
  proof -
    have "is_first_max ?q (fold topStep ?q (''Other'', 0))"
      using fold_topStep_first_max [OF pos] .
    then have "is_first_max ?q (statsTop p, snd (fold topStep ?q (''Other'', 0)))"
      using st by simp
    then show ?thesis by blast
  qed
  have D: "statsTop p = ''Other''" if neg: "\<not> (\<exists>e \<in> set ?q. 0 < snd e)"
  proof -
    have "fold topStep ?q (''Other'', 0) = (''Other'', 0)"
      using fold_topStep_none_positive [OF neg] .
    then show ?thesis using st by simp
  qed
  have E: "spec_top_category VALID_CATEGORIES p = Some (fst (docListTop doc)) \<and>
            spec_top_category VALID_CATEGORIES p = Some (predictedCategory p) \<and>
            spec_top_category VALID_CATEGORIES p = Some (statsTop p)"
    if ord: "map fst p = VALID_CATEGORIES" and pos: "\<exists>e \<in> set p. 0 < snd e"
  proof -
    have dv: "distinct VALID_CATEGORIES" by (simp add: VALID_CATEGORIES_def)
    note sp = spec_top_category_first_max [OF ord dv]
    have q: "?q = p" using ord by (rule filter_valid_registry_order)
    from A [OF pos] obtain v where v: "is_first_max p (predictedCategory p, v)"
      and d: "is_first_max p (docListTop doc)" by blast
    from pos q have "\<exists>e \<in> set ?q. 0 < snd e" by simp
    from C [OF this] q obtain w where w: "is_first_max p (statsTop p, w)" by auto
    show ?thesis using sp [OF d] sp [OF v] sp [OF w] by simp
  qed
  have 1: "if \<exists>e \<in> set p. 0 < snd e
          then is_first_max p (docListTop doc) \<and> (\<exists>v. is_first_max p (predictedCategory p, v))
          else docListTop doc = (''Unclassified'', 0) \<and> predictedCategory p = ''Other''"
    using A B by presburger
  have 2: "if \<exists>e \<in> set ?q. 0 < snd e
          then \<exists>v. is_first_max ?q (statsTop p, v)
          else statsTop p = ''Other''"
    using C D by presburger
  have 3: "map fst p = VALID_CATEGORIES \<and> (\<exists>e \<in> set p. 0 < snd e) \<longrightarrow>
            spec_top_category VALID_CATEGORIES p = Some (fst (docListTop doc)) \<and>
            spec_top_category VALID_CATEGORIES p = Some (predictedCategory p) \<and>
            spec_top_category VALID_CATEGORIES p = Some (statsTop p)"
    using E by blast
  show ?thesis using 1 2 3 by (intro conjI)
qed

theorem top_category_first_entry_maximum_witness:
  "is_first_max tied_prediction (docListTop tied_document) \<and>
   (\<exists>v. is_first_max tied_prediction (predictedCategory tied_prediction, v)) \<and>
   (\<exists>v. is_first_max (filter (\<lambda>e. fst e \<in> set VALID_CATEGORIES) tied_prediction)
          (statsTop tied_prediction, v)) \<and>
   spec_top_category VALID_CATEGORIES uniform_prediction = Some (fst (docListTop uniform_document)) \<and>
   spec_top_category VALID_CATEGORIES uniform_prediction = Some (predictedCategory uniform_prediction) \<and>
   spec_top_category VALID_CATEGORIES uniform_prediction = Some (statsTop uniform_prediction)"
proof -
  have h: "category_prediction tied_document = Some tied_prediction"
    by (simp add: tied_document_def)
  have pos: "\<exists>e \<in> set tied_prediction. 0 < snd e"
    by (simp add: tied_prediction_def)
  have posq: "\<exists>e \<in> set (filter (\<lambda>e. fst e \<in> set VALID_CATEGORIES) tied_prediction). 0 < snd e"
    by (simp add: tied_prediction_def VALID_CATEGORIES_def)
  have hu: "category_prediction uniform_document = Some uniform_prediction"
    by (simp add: uniform_document_def)
  have ord: "map fst uniform_prediction = VALID_CATEGORIES"
    by (simp add: uniform_prediction_def VALID_CATEGORIES_def)
  have posu: "\<exists>e \<in> set uniform_prediction. 0 < snd e"
    by (simp add: uniform_prediction_def)
  note t = top_category_first_entry_maximum [OF h]
  note u = top_category_first_entry_maximum [OF hu]
  from t pos have a: "is_first_max tied_prediction (docListTop tied_document) \<and>
      (\<exists>v. is_first_max tied_prediction (predictedCategory tied_prediction, v))"
    by presburger
  from t posq have b: "\<exists>v. is_first_max (filter (\<lambda>e. fst e \<in> set VALID_CATEGORIES) tied_prediction)
      (statsTop tied_prediction, v)"
    by presburger
  from u ord posu have c: "spec_top_category VALID_CATEGORIES uniform_prediction =
        Some (fst (docListTop uniform_document)) \<and>
      spec_top_category VALID_CATEGORIES uniform_prediction = Some (predictedCategory uniform_prediction) \<and>
      spec_top_category VALID_CATEGORIES uniform_prediction = Some (statsTop uniform_prediction)"
    by blast
  show ?thesis using a b c by (intro conjI) blast+
qed

text \<open>
  C1: a mapping with a tie between two categories, listed in the opposite order to the
  registry. The registry-order argmax is \<open>Technical Documentation\<close>; all three loops
  report \<open>Legal Document\<close>.
\<close>

theorem top_category_registry_order_counterexample:
  "spec_top_category VALID_CATEGORIES tied_prediction = Some ''Technical Documentation'' \<and>
   fst (docListTop tied_document) = ''Legal Document'' \<and>
   statsTop tied_prediction = ''Legal Document'' \<and>
   predictedCategory tied_prediction = ''Legal Document''"
  by (simp add: spec_top_category_def VALID_CATEGORIES_def tied_prediction_def
      tied_document_def docListTop_def statsTop_def predictedCategory_def)

section \<open>PCA: the projection keeps the first two centred columns\<close>

lemma fold_update_upt:
  "k \<le> length m \<Longrightarrow>
   fold (\<lambda>j m. m[j := f j (js_nth m j)]) [0..<k] m = map (\<lambda>j. f j (m ! j)) [0..<k] @ drop k m"
proof (induction k)
  case 0
  then show ?case by simp
next
  case (Suc k)
  then have k: "k < length m" by simp
  have "fold (\<lambda>j m. m[j := f j (js_nth m j)]) [0..<Suc k] m =
        (\<lambda>m. m[k := f k (js_nth m k)]) (map (\<lambda>j. f j (m ! j)) [0..<k] @ drop k m)"
    using Suc by simp
  also have "\<dots> = map (\<lambda>j. f j (m ! j)) [0..<k] @ (drop k m)[0 := f k (m ! k)]"
    using k by (simp add: list_update_append js_nth_def nth_append)
  also have "(drop k m)[0 := f k (m ! k)] = f k (m ! k) # drop (Suc k) m"
    using k by (simp add: Cons_nth_drop_Suc [symmetric])
  finally show ?case by simp
qed

lemma pca_add_row_map:
  "length m = d \<Longrightarrow>
   pca_add_row n d row m = map (\<lambda>j. js_add (m ! j) (js_div (js_read row j) n)) [0..<d]"
  unfolding pca_add_row_def
  using fold_update_upt [of d m "\<lambda>j x. js_add x (js_div (js_read row j) n)"] by simp

lemma pca_mean_fold:
  assumes "\<forall>row \<in> set data. length row = d" and "n \<noteq> 0"
  shows "fold (pca_add_row n d) data (map (\<lambda>j. Some (a j)) [0..<d]) =
         map (\<lambda>j. Some (a j + (\<Sum>row \<leftarrow> data. row ! j / real_of_int n))) [0..<d]"
  using assms(1)
proof (induction data arbitrary: a)
  case Nil
  then show ?case by simp
next
  case (Cons row data)
  have len: "length row = d" using Cons.prems by simp
  have step: "pca_add_row n d row (map (\<lambda>j. Some (a j)) [0..<d]) =
        map (\<lambda>j. Some (a j + row ! j / real_of_int n)) [0..<d]"
    using len assms(2) by (simp add: pca_add_row_map js_read_def)
  have rest: "\<forall>row \<in> set data. length row = d" using Cons.prems by simp
  show ?case
    using Cons.IH [OF rest, of "\<lambda>j. a j + row ! j / real_of_int n"] step
    by (simp add: add.assoc)
qed

lemma pca_mean_rect:
  assumes "\<forall>row \<in> set data. length row = d" and "data \<noteq> []"
  shows "pca_mean data d = map (\<lambda>j. Some (column_mean data j)) [0..<d]"
proof -
  have n: "int (length data) \<noteq> 0" using assms(2) by simp
  have "replicate d (Some (0::real)) = map (\<lambda>j. Some 0) [0..<d]"
    by (simp add: map_replicate_const)
  then show ?thesis
    unfolding pca_mean_def column_mean_def
    using pca_mean_fold [OF assms(1) n, of "\<lambda>j. 0"] by simp
qed

lemma map_zip_upt:
  "map (\<lambda>(v, i). g v i) (zip row [0..<length row]) = map (\<lambda>i. g (row ! i) i) [0..<length row]"
  by (rule nth_equalityI) simp_all

lemma pca_centered_rect:
  assumes "\<forall>row \<in> set data. length row = d"
  shows "pca_centered data (map (\<lambda>j. Some (cm j)) [0..<d]) =
         map (\<lambda>row. map (\<lambda>i. Some (row ! i - cm i)) [0..<d]) data"
  unfolding pca_centered_def
proof (rule map_cong [OF refl])
  fix row assume "row \<in> set data"
  then have len: "length row = d" using assms by simp
  show "map (\<lambda>(val, i). js_sub (Some val) (js_nth (map (\<lambda>j. Some (cm j)) [0..<d]) i))
          (zip row [0..<length row]) = map (\<lambda>i. Some (row ! i - cm i)) [0..<d]"
    unfolding map_zip_upt using len by (simp add: js_nth_def)
qed

lemma project_unit_fold:
  "k + length cs \<le> d \<Longrightarrow>
   fold (\<lambda>(val, i) sum. js_add sum (js_mul (js_nth (map (\<lambda>i. if i = t then Some 1 else Some 0) [0..<d]) i) val))
     (zip (map Some cs) [k..<k + length cs]) (Some s) =
   Some (s + (if k \<le> t \<and> t < k + length cs then cs ! (t - k) else 0))"
proof (induction cs arbitrary: k s)
  case Nil
  then show ?case by simp
next
  case (Cons c cs)
  have up: "[k..<k + length (c # cs)] = k # [Suc k..<Suc k + length cs]"
    by (subst upt_rec) simp
  have kd: "k < d" using Cons.prems by simp
  have le: "Suc k + length cs \<le> d" using Cons.prems by simp
  show ?case
    unfolding up using Cons.IH [OF le] kd
    by (auto simp: js_nth_def nth_Cons')
qed

lemma pca_project_unit:
  assumes "length cs = d"
  shows "pca_project (map (\<lambda>i. if i = t then Some 1 else Some 0) [0..<d]) (map Some cs) =
         Some (if t < d then cs ! t else 0)"
  unfolding pca_project_def
  using project_unit_fold [of 0 cs d t 0] assms by simp

lemma performPCA_rect:
  assumes ne: "data \<noteq> []"
    and rect: "\<forall>row \<in> set data. length row = length (hd data)"
    and two: "2 \<le> length (hd data)"
  shows "performPCA data = Inr (first_two_centered data)"
proof -
  let ?d = "length (hd data)"
  obtain row0 rest where data: "data = row0 # rest" using ne by (cases data) auto
  have d: "length row0 = ?d" using data by simp
  have cen: "pca_centered data (pca_mean data ?d) =
      map (\<lambda>row. map Some (map (\<lambda>i. row ! i - column_mean data i) [0..<?d])) data"
    using pca_mean_rect [OF rect ne] pca_centered_rect [OF rect] by simp
  have "performPCA data = Inr (map (\<lambda>row.
      [pca_project (map (\<lambda>i. if i = 0 then Some 1 else Some 0) [0..<?d])
         (map Some (map (\<lambda>i. row ! i - column_mean data i) [0..<?d])),
       pca_project (map (\<lambda>i. if i = 1 then Some 1 else Some 0) [0..<?d])
         (map Some (map (\<lambda>i. row ! i - column_mean data i) [0..<?d]))]) data)"
    unfolding performPCA_def using cen data by (simp add: Let_def comp_def)
  also have "\<dots> = Inr (first_two_centered data)"
  proof -
    have "pca_project (map (\<lambda>i. if i = t then Some 1 else Some 0) [0..<?d])
         (map Some (map (\<lambda>i. row ! i - column_mean data i) [0..<?d])) =
       Some (row ! t - column_mean data t)" if "t < 2" for row t
      using pca_project_unit [of "map (\<lambda>i. row ! i - column_mean data i) [0..<?d]" ?d t]
        two that by simp
    then show ?thesis by (simp add: first_two_centered_def)
  qed
  finally show ?thesis .
qed










section \<open>The document loop of the statistics\<close>

lemma fold_predStep_top:
  "fst (fold predStep p (t, ts, occ)) = fold statsTopStep p t"
proof (induction p arbitrary: t ts occ)
  case Nil
  then show ?case by simp
next
  case (Cons e p)
  obtain c v where e: "e = (c, v)" by (cases e)
  show ?case using Cons.IH e by simp
qed

lemma length_featureVector: "length (featureVector doc) = length VALID_CATEGORIES"
  by (simp add: featureVector_def split: option.splits list.splits)

lemma processDocument_lists:
  "featureVectors (processDocument doc a) = featureVectors a @ [featureVector doc]"
  "docCategories (processDocument doc a) = docCategories a @ [docTop doc]"
  "docFilenames (processDocument doc a) = docFilenames a @ [displayName doc]"
proof -
  show "featureVectors (processDocument doc a) = featureVectors a @ [featureVector doc]"
    by (simp add: processDocument_def addToCategory_def featureVector_def Let_def
        split: option.splits list.splits prod.splits)
  show "docFilenames (processDocument doc a) = docFilenames a @ [displayName doc]"
    by (simp add: processDocument_def addToCategory_def Let_def
        split: option.splits list.splits prod.splits)
  show "docCategories (processDocument doc a) = docCategories a @ [docTop doc]"
  proof (cases "category_prediction doc")
    case None
    then show ?thesis by (simp add: processDocument_def addToCategory_def docTop_def)
  next
    case (Some p)
    show ?thesis
    proof (cases p)
      case Nil
      with Some show ?thesis by (simp add: processDocument_def addToCategory_def docTop_def)
    next
      case (Cons e es)
      obtain t ts occ where f: "fold predStep (e # es)
          ((''Other'', 0), totalScores a, categoryOccurrences a) = (t, ts, occ)"
        by (metis prod_cases3)
      have "t = fold statsTopStep (e # es) (''Other'', 0)"
        using fold_predStep_top [of "e # es" "(''Other'', 0)" "totalScores a" "categoryOccurrences a"] f
        by simp
      then have "fst t = statsTop (e # es)" by (simp add: statsTop_def)
      with Some Cons f show ?thesis
        by (simp add: processDocument_def addToCategory_def docTop_def Let_def del: fold_simps)
    qed
  qed
qed

lemma fold_processDocument_lists:
  "featureVectors (fold processDocument docs a) = featureVectors a @ map featureVector docs"
  "docCategories (fold processDocument docs a) = docCategories a @ map docTop docs"
  "docFilenames (fold processDocument docs a) = docFilenames a @ map displayName docs"
  by (induction docs arbitrary: a) (simp_all add: processDocument_lists)

lemma init_acc_lists:
  "featureVectors init_acc = []" "docCategories init_acc = []" "docFilenames init_acc = []"
  by (simp_all add: init_acc_def VALID_CATEGORIES_def)

lemma featureVectors_fold_init:
  "featureVectors (fold processDocument docs init_acc) = map featureVector docs"
  "docCategories (fold processDocument docs init_acc) = map docTop docs"
  "docFilenames (fold processDocument docs init_acc) = map displayName docs"
  by (simp_all add: fold_processDocument_lists init_acc_lists)

lemma featureVectors_rect:
  assumes "docs \<noteq> []"
  shows "\<forall>row \<in> set (map featureVector docs). length row = length (hd (map featureVector docs))"
    and "2 \<le> length (hd (map featureVector docs))"
proof -
  have "length (hd (map featureVector docs)) = length VALID_CATEGORIES"
    using assms by (cases docs) (simp_all add: length_featureVector)
  then show "\<forall>row \<in> set (map featureVector docs). length row = length (hd (map featureVector docs))"
    by (simp add: length_featureVector)
  show "2 \<le> length (hd (map featureVector docs))"
    using \<open>length (hd (map featureVector docs)) = length VALID_CATEGORIES\<close>
    by (simp add: VALID_CATEGORIES_def)
qed

lemma fetchData_stats_pca:
  assumes "2 \<le> length docs"
  shows "\<exists>r. fetchData_stats docs = Inr r \<and>
           pcaData r = Some (map (\<lambda>d. (Some (featureVector d ! 0 - column_mean (map featureVector docs) 0),
                                       Some (featureVector d ! 1 - column_mean (map featureVector docs) 1))) docs,
                             map docTop docs, map displayName docs)"
proof -
  have ne: "docs \<noteq> []" using assms by auto
  then have ne': "map featureVector docs \<noteq> []" by simp
  have pca: "performPCA (map featureVector docs) = Inr (first_two_centered (map featureVector docs))"
    using performPCA_rect [OF ne' featureVectors_rect [OF ne]] .
  show ?thesis
    unfolding fetchData_stats_def
    using assms pca
    by (simp add: Let_def featureVectors_fold_init first_two_centered_def js_nth_def comp_def)
qed


section \<open>PCA at its call site\<close>

lemma cov_sum_finite:
  "\<forall>k \<in> set ks. js_nth (c ! k) i \<noteq> None \<and> js_nth (c ! k) j \<noteq> None \<Longrightarrow>
   fold (\<lambda>k sum. js_add sum (js_mul (js_nth (c ! k) i) (js_nth (c ! k) j))) ks (Some s) \<noteq> None"
proof (induction ks arbitrary: s)
  case Nil
  then show ?case by simp
next
  case (Cons k ks)
  then obtain x y where "js_nth (c ! k) i = Some x" "js_nth (c ! k) j = Some y" by auto
  then show ?case using Cons by simp
qed

lemma js_div_finite: "a \<noteq> None \<Longrightarrow> n \<noteq> 0 \<Longrightarrow> js_div a n \<noteq> None"
  by (cases a) simp_all

lemma covMatrix_finite:
  assumes rows: "\<forall>row \<in> set c. length row = d \<and> None \<notin> set row" and two: "2 \<le> length c"
  shows "\<forall>r \<in> set (pca_covMatrix c d). \<forall>x \<in> set r. x \<noteq> None"
proof -
  have n: "int (length c) - 1 \<noteq> 0" using two by simp
  have ent: "js_nth (c ! k) i \<noteq> None" if "k < length c" "i < d" for k i
  proof -
    have "c ! k \<in> set c" using that by simp
    with rows have "length (c ! k) = d" "None \<notin> set (c ! k)" by auto
    with that show ?thesis by (metis js_nth_def nth_mem)
  qed
  have "js_div (fold (\<lambda>k sum. js_add sum (js_mul (js_nth (c ! k) i) (js_nth (c ! k) j)))
                   [0..<length c] (Some 0)) (int (length c) - 1) \<noteq> None"
    if "i < d" "j < d" for i j
    by (rule js_div_finite [OF cov_sum_finite n]) (use ent that in simp)
  then show ?thesis by (auto simp: pca_covMatrix_def)
qed

lemma covMatrix_single_row:
  assumes "length c = 1"
  shows "\<forall>r \<in> set (pca_covMatrix c d). \<forall>x \<in> set r. x = None"
proof -
  have "js_div a (int (length c) - 1) = None" for a
    using assms by (cases a) simp_all
  then show ?thesis by (auto simp: pca_covMatrix_def)
qed

lemma performPCA_covMatrix_rect:
  assumes ne: "data \<noteq> []"
    and rect: "\<forall>row \<in> set data. length row = length (hd data)"
    and two: "2 \<le> length data"
  shows "\<forall>r \<in> set (performPCA_covMatrix data). \<forall>x \<in> set r. x \<noteq> None"
proof -
  let ?d = "length (hd data)"
  let ?c = "pca_centered data (pca_mean data ?d)"
  have cen: "?c = map (\<lambda>row. map (\<lambda>i. Some (row ! i - column_mean data i)) [0..<?d]) data"
    using pca_mean_rect [OF rect ne] pca_centered_rect [OF rect] by simp
  have "\<forall>row \<in> set ?c. length row = ?d \<and> None \<notin> set row"
    unfolding cen by auto
  moreover have "2 \<le> length ?c" unfolding cen using two by simp
  ultimately show ?thesis
    unfolding performPCA_covMatrix_def Let_def by (rule covMatrix_finite)
qed

lemma performPCA_covMatrix_single:
  "\<forall>r \<in> set (performPCA_covMatrix [row]). \<forall>x \<in> set r. x = None"
  unfolding performPCA_covMatrix_def Let_def
  by (rule covMatrix_single_row) (simp add: pca_centered_def)

lemma fetchData_stats_few:
  assumes "length docs < 2"
  shows "\<exists>r. fetchData_stats docs = Inr r \<and> pcaData r = None"
  using assms by (simp add: fetchData_stats_def Let_def featureVectors_fold_init)

text \<open>
  C10. \<^verbatim>\<open>performPCA\<close> has no guard of its own: on the empty list it throws (the read of
  \<^verbatim>\<open>data[0].length\<close>), and on a single row every entry of its covariance matrix is
  a quotient by zero. Its only call site, in \<^verbatim>\<open>fetchData\<close>, calls it only when there
  are at least two feature vectors: the statistics never fail, the projection is
  absent exactly when there are fewer than two documents, and with two or more the
  list is not empty, the divisor \<^verbatim>\<open>length - 1\<close> is not zero and every covariance entry is a
  finite number.
\<close>

theorem performPCA_guarded_by_call_site:
  "performPCA [] = Inl TypeError \<and>
   (\<forall>r \<in> set (performPCA_covMatrix [row]). \<forall>x \<in> set r. x = None) \<and>
   (\<exists>r. fetchData_stats docs = Inr r \<and> (pcaData r = None) = (length docs < 2)) \<and>
   (2 \<le> length docs \<longrightarrow>
      featureVectors (fold processDocument docs init_acc) \<noteq> [] \<and>
      int (length (featureVectors (fold processDocument docs init_acc))) - 1 \<noteq> 0 \<and>
      (\<forall>r \<in> set (performPCA_covMatrix (featureVectors (fold processDocument docs init_acc))).
         \<forall>x \<in> set r. x \<noteq> None))"
proof -
  have a: "performPCA [] = Inl TypeError" by (simp add: performPCA_def)
  have c: "\<exists>r. fetchData_stats docs = Inr r \<and> (pcaData r = None) = (length docs < 2)"
  proof (cases "length docs < 2")
    case True
    then show ?thesis using fetchData_stats_few by blast
  next
    case False
    then have "2 \<le> length docs" by simp
    from fetchData_stats_pca [OF this] False show ?thesis by auto
  qed
  have d: "featureVectors (fold processDocument docs init_acc) \<noteq> [] \<and>
      int (length (featureVectors (fold processDocument docs init_acc))) - 1 \<noteq> 0 \<and>
      (\<forall>r \<in> set (performPCA_covMatrix (featureVectors (fold processDocument docs init_acc))).
         \<forall>x \<in> set r. x \<noteq> None)" if two: "2 \<le> length docs"
  proof -
    have ne: "docs \<noteq> []" using two by auto
    then have ne': "map featureVector docs \<noteq> []" by simp
    have two': "2 \<le> length (map featureVector docs)" using two by simp
    show ?thesis
      unfolding featureVectors_fold_init
      using performPCA_covMatrix_rect [OF ne' featureVectors_rect(1) [OF ne] two'] two ne
      by simp
  qed
  show ?thesis using a performPCA_covMatrix_single c d by blast
qed

theorem performPCA_guarded_by_call_site_witness:
  "(\<exists>r. fetchData_stats [pca_doc_a, pca_doc_b] = Inr r \<and> pcaData r \<noteq> None) \<and>
   list_all (list_all (\<lambda>x. x \<noteq> None))
     (performPCA_covMatrix (featureVectors (fold processDocument [pca_doc_a, pca_doc_b] init_acc)))"
  using performPCA_guarded_by_call_site [of "[]" "[pca_doc_a, pca_doc_b]"]
  by (simp add: list_all_iff)

lemma pca_docs_features:
  "map featureVector [pca_doc_a, pca_doc_b] = [[1/4, 1/4, 1/2, 0, 0, 0], [1/4, 1/4, 0, 1/2, 0, 0]]"
  by (simp add: featureVector_def pca_doc_a_def pca_doc_b_def VALID_CATEGORIES_def or0_def)

text \<open>
  C4: two documents whose first two columns are constant and whose variance lies in
  the third and fourth columns. The code projects both to the origin; the two axes of
  highest variance would separate them.
\<close>

theorem pca_first_two_axes_counterexample:
  "map featureVector [pca_doc_a, pca_doc_b] = [[1/4, 1/4, 1/2, 0, 0, 0], [1/4, 1/4, 0, 1/2, 0, 0]] \<and>
   performPCA (map featureVector [pca_doc_a, pca_doc_b]) = Inr [[Some 0, Some 0], [Some 0, Some 0]] \<and>
   spec_highest_variance_axes (map featureVector [pca_doc_a, pca_doc_b]) = [2, 3] \<and>
   spec_highest_variance_projection (map featureVector [pca_doc_a, pca_doc_b]) =
     [[Some (1/4), Some (- (1/4))], [Some (- (1/4)), Some (1/4)]]"
proof -
  let ?X = "[[1/4, 1/4, 1/2, 0, 0, 0], [1/4, 1/4, 0, 1/2, 0, 0 :: real]]"
  have m: "column_mean ?X 0 = 1/4" "column_mean ?X 1 = 1/4" "column_mean ?X 2 = 1/4"
    "column_mean ?X 3 = 1/4" "column_mean ?X 4 = 0" "column_mean ?X 5 = 0"
    by (simp_all add: column_mean_def)
  have v: "column_variance ?X 0 = 0" "column_variance ?X 1 = 0" "column_variance ?X 2 = 1/8"
    "column_variance ?X 3 = 1/8" "column_variance ?X 4 = 0" "column_variance ?X 5 = 0"
    unfolding column_variance_def m by (simp_all add: power2_eq_square)
  note m' = m [unfolded eval_nat_numeral One_nat_def]
  note v' = v [unfolded eval_nat_numeral One_nat_def]
  have u: "[0..<6] = [0, 1, 2, 3, 4, 5]" by (simp add: upt_rec)
  have l: "length (hd ?X) = 6" by simp
  have ax: "spec_highest_variance_axes ?X = [2, 3]"
    unfolding spec_highest_variance_axes_def l u by (simp add: v v')
  have pr: "spec_highest_variance_projection ?X =
     [[Some (1/4), Some (- (1/4))], [Some (- (1/4)), Some (1/4)]]"
    unfolding spec_highest_variance_projection_def ax by (simp add: m m')
  have "performPCA ?X = Inr (first_two_centered ?X)"
    by (rule performPCA_rect) simp_all
  then have pca: "performPCA ?X = Inr [[Some 0, Some 0], [Some 0, Some 0]]"
    by (simp add: first_two_centered_def m m')
  show ?thesis unfolding pca_docs_features using ax pr pca by simp
qed

text \<open>
  C4 (amended). With at least two documents, the projection has one row per document
  built from a feature vector with one column per registered category; the columns
  are mean-centred and each row is projected onto the first two raw axes (the columns
  of the first two registered categories), whatever the variances are.
\<close>

theorem pca_projects_first_two_columns:
  assumes "2 \<le> length docs"
  shows "(\<forall>d \<in> set docs. length (featureVector d) = length VALID_CATEGORIES) \<and>
         (\<exists>r. fetchData_stats docs = Inr r \<and>
           pcaData r = Some (map (\<lambda>d. (Some (featureVector d ! 0 - column_mean (map featureVector docs) 0),
                                       Some (featureVector d ! 1 - column_mean (map featureVector docs) 1))) docs,
                             map docTop docs, map displayName docs))"
  using fetchData_stats_pca [OF assms] length_featureVector by blast

theorem pca_projects_first_two_columns_witness:
  "\<exists>r. fetchData_stats [pca_doc_a, pca_doc_b] = Inr r \<and>
       pcaData r = Some ([(Some 0, Some 0), (Some 0, Some 0)],
                         [''Legal Document'', ''Academic Paper''], [''a.pdf'', ''b.pdf''])"
proof -
  have two: "2 \<le> length [pca_doc_a, pca_doc_b]" by simp
  have m: "column_mean [[1/4, 1/4, 1/2, 0, 0, 0], [1/4, 1/4, 0, 1/2, 0, 0]] 0 = 1/4"
    "column_mean [[1/4, 1/4, 1/2, 0, 0, 0], [1/4, 1/4, 0, 1/2, 0, 0]] 1 = 1/4"
    by (simp_all add: column_mean_def)
  have t: "docTop pca_doc_a = ''Legal Document''" "docTop pca_doc_b = ''Academic Paper''"
    by (simp_all add: docTop_def statsTop_def pca_doc_a_def pca_doc_b_def VALID_CATEGORIES_def)
  have n: "displayName pca_doc_a = ''a.pdf''" "displayName pca_doc_b = ''b.pdf''"
    by (simp_all add: displayName_def pca_doc_a_def pca_doc_b_def)
  have f: "featureVector pca_doc_a = [1/4, 1/4, 1/2, 0, 0, 0]"
    "featureVector pca_doc_b = [1/4, 1/4, 0, 1/2, 0, 0]"
    using pca_docs_features by simp_all
  show ?thesis
    using pca_projects_first_two_columns [OF two]
    by (simp add: f m m [unfolded One_nat_def] t n)
qed


section \<open>Counts and averages of the report\<close>

lemma or0_upd: "or0 (m(k \<mapsto> v)) c = (if c = k then v else or0 m c)"
  by (simp add: or0_def)

lemma addToCategory_totals:
  "or0 (counts (addToCategory t fv d a)) c = or0 (counts a) c + (if t = c then 1 else 0)"
  "or0 (totalSizes (addToCategory t fv d a)) c = or0 (totalSizes a) c + (if t = c then sizeKB d else 0)"
  "or0 (totalLengths (addToCategory t fv d a)) c =
     or0 (totalLengths a) c + (if t = c then contentLength d else 0)"
  "totalScores (addToCategory t fv d a) = totalScores a"
  "categoryOccurrences (addToCategory t fv d a) = categoryOccurrences a"
  by (auto simp: addToCategory_def or0_upd sizeKB_def contentLength_def split: option.splits)

lemma addToCategory_dom:
  "counts a c \<noteq> None \<Longrightarrow> counts (addToCategory t fv d a) c \<noteq> None"
  "totalSizes a c \<noteq> None \<Longrightarrow> totalSizes (addToCategory t fv d a) c \<noteq> None"
  "totalLengths a c \<noteq> None \<Longrightarrow> totalLengths (addToCategory t fv d a) c \<noteq> None"
  by (auto simp: addToCategory_def split: option.splits)

lemma fold_predStep_totals:
  assumes "c \<in> set VALID_CATEGORIES"
  shows "fold predStep p (t, ts, occ) = (t', ts', occ') \<Longrightarrow>
     or0 ts' c = or0 ts c + sum_list (map snd (filter (\<lambda>x. fst x = c) p)) \<and>
     or0 occ' c = or0 occ c + length (filter (\<lambda>x. fst x = c) p) \<and>
     (ts c \<noteq> None \<longrightarrow> ts' c \<noteq> None) \<and>
     (occ c \<noteq> None \<longrightarrow> occ' c \<noteq> None)"
proof (induction p arbitrary: t ts occ)
  case Nil
  then show ?case by simp
next
  case (Cons e p)
  obtain k v where e: "e = (k, v)" by (cases e)
  obtain t1 ts1 occ1 where st: "predStep e (t, ts, occ) = (t1, ts1, occ1)"
    by (metis prod_cases3)
  have one: "or0 ts1 c = or0 ts c + (if k = c then v else 0)"
    "or0 occ1 c = or0 occ c + (if k = c then 1 else 0)"
    "ts c \<noteq> None \<longrightarrow> ts1 c \<noteq> None" "occ c \<noteq> None \<longrightarrow> occ1 c \<noteq> None"
    using st e assms by (auto simp: or0_upd split: if_splits)
  from Cons.prems have "fold predStep p (predStep e (t, ts, occ)) = (t', ts', occ')"
    by simp
  then have "fold predStep p (t1, ts1, occ1) = (t', ts', occ')"
    unfolding st .
  from Cons.IH [OF this] one e show ?case by simp
qed

lemma processDocument_totals:
  assumes "c \<in> set VALID_CATEGORIES"
  shows "or0 (counts (processDocument d a)) c = or0 (counts a) c + (if docTop d = c then 1 else 0)"
    and "or0 (totalSizes (processDocument d a)) c =
           or0 (totalSizes a) c + (if docTop d = c then sizeKB d else 0)"
    and "or0 (totalLengths (processDocument d a)) c =
           or0 (totalLengths a) c + (if docTop d = c then contentLength d else 0)"
    and "or0 (totalScores (processDocument d a)) c = or0 (totalScores a) c + sum_list (scoresOf c d)"
    and "or0 (categoryOccurrences (processDocument d a)) c =
           or0 (categoryOccurrences a) c + length (scoresOf c d)"
    and "counts a c \<noteq> None \<longrightarrow> counts (processDocument d a) c \<noteq> None"
    and "totalSizes a c \<noteq> None \<longrightarrow> totalSizes (processDocument d a) c \<noteq> None"
    and "totalLengths a c \<noteq> None \<longrightarrow> totalLengths (processDocument d a) c \<noteq> None"
    and "totalScores a c \<noteq> None \<longrightarrow> totalScores (processDocument d a) c \<noteq> None"
    and "categoryOccurrences a c \<noteq> None \<longrightarrow> categoryOccurrences (processDocument d a) c \<noteq> None"
proof -
  consider (none) "category_prediction d = None \<or> category_prediction d = Some []"
    | (some) e es where "category_prediction d = Some (e # es)"
    by (metis list.exhaust option.exhaust)
  then have "or0 (counts (processDocument d a)) c = or0 (counts a) c + (if docTop d = c then 1 else 0) \<and>
    or0 (totalSizes (processDocument d a)) c =
           or0 (totalSizes a) c + (if docTop d = c then sizeKB d else 0) \<and>
    or0 (totalLengths (processDocument d a)) c =
           or0 (totalLengths a) c + (if docTop d = c then contentLength d else 0) \<and>
    or0 (totalScores (processDocument d a)) c = or0 (totalScores a) c + sum_list (scoresOf c d) \<and>
    or0 (categoryOccurrences (processDocument d a)) c =
           or0 (categoryOccurrences a) c + length (scoresOf c d) \<and>
    (counts a c \<noteq> None \<longrightarrow> counts (processDocument d a) c \<noteq> None) \<and>
    (totalSizes a c \<noteq> None \<longrightarrow> totalSizes (processDocument d a) c \<noteq> None) \<and>
    (totalLengths a c \<noteq> None \<longrightarrow> totalLengths (processDocument d a) c \<noteq> None) \<and>
    (totalScores a c \<noteq> None \<longrightarrow> totalScores (processDocument d a) c \<noteq> None) \<and>
    (categoryOccurrences a c \<noteq> None \<longrightarrow> categoryOccurrences (processDocument d a) c \<noteq> None)"
  proof cases
    case none
    then have pd: "processDocument d a = addToCategory ''Other'' (map (\<lambda>_. 0) VALID_CATEGORIES) d a"
      and dt: "docTop d = ''Other''" and sc: "scoresOf c d = []"
      by (auto simp: processDocument_def docTop_def scoresOf_def)
    show ?thesis
      unfolding pd dt sc using addToCategory_dom [of a c "''Other''"]
      by (simp add: addToCategory_totals)
  next
    case some
    obtain t ts occ where f: "fold predStep (e # es)
          ((''Other'', 0), totalScores a, categoryOccurrences a) = (t, ts, occ)"
      by (metis prod_cases3)
    have "t = fold statsTopStep (e # es) (''Other'', 0)"
      using fold_predStep_top [of "e # es" "(''Other'', 0)" "totalScores a" "categoryOccurrences a"] f
      by simp
    then have top: "fst t = docTop d" using some by (simp add: statsTop_def docTop_def)
    have pd: "processDocument d a = addToCategory (docTop d)
        (map (\<lambda>cat. or0 (map_of (e # es)) cat) VALID_CATEGORIES) d
        (a\<lparr> totalScores := ts, categoryOccurrences := occ \<rparr>)"
      using some f top by (simp add: processDocument_def Let_def del: fold_simps)
    have sc: "scoresOf c d = map snd (filter (\<lambda>x. fst x = c) (e # es))"
      using some by (simp add: scoresOf_def)
    note tot = fold_predStep_totals [OF assms f]
    show ?thesis
      unfolding pd sc
      using tot addToCategory_dom [of "a\<lparr> totalScores := ts, categoryOccurrences := occ \<rparr>" c "docTop d"]
      by (simp add: addToCategory_totals del: fold_simps)
  qed
  then show "or0 (counts (processDocument d a)) c = or0 (counts a) c + (if docTop d = c then 1 else 0)"
    and "or0 (totalSizes (processDocument d a)) c =
           or0 (totalSizes a) c + (if docTop d = c then sizeKB d else 0)"
    and "or0 (totalLengths (processDocument d a)) c =
           or0 (totalLengths a) c + (if docTop d = c then contentLength d else 0)"
    and "or0 (totalScores (processDocument d a)) c = or0 (totalScores a) c + sum_list (scoresOf c d)"
    and "or0 (categoryOccurrences (processDocument d a)) c =
           or0 (categoryOccurrences a) c + length (scoresOf c d)"
    and "counts a c \<noteq> None \<longrightarrow> counts (processDocument d a) c \<noteq> None"
    and "totalSizes a c \<noteq> None \<longrightarrow> totalSizes (processDocument d a) c \<noteq> None"
    and "totalLengths a c \<noteq> None \<longrightarrow> totalLengths (processDocument d a) c \<noteq> None"
    and "totalScores a c \<noteq> None \<longrightarrow> totalScores (processDocument d a) c \<noteq> None"
    and "categoryOccurrences a c \<noteq> None \<longrightarrow> categoryOccurrences (processDocument d a) c \<noteq> None"
    by blast+
qed

lemma fold_processDocument_totals:
  assumes "c \<in> set VALID_CATEGORIES"
  shows "or0 (counts (fold processDocument docs a)) c =
           or0 (counts a) c + length (filter (\<lambda>d. docTop d = c) docs) \<and>
         or0 (totalSizes (fold processDocument docs a)) c =
           or0 (totalSizes a) c + sum_list (map sizeKB (filter (\<lambda>d. docTop d = c) docs)) \<and>
         or0 (totalLengths (fold processDocument docs a)) c =
           or0 (totalLengths a) c + sum_list (map contentLength (filter (\<lambda>d. docTop d = c) docs)) \<and>
         or0 (totalScores (fold processDocument docs a)) c =
           or0 (totalScores a) c + sum_list (concat (map (scoresOf c) docs)) \<and>
         or0 (categoryOccurrences (fold processDocument docs a)) c =
           or0 (categoryOccurrences a) c + length (concat (map (scoresOf c) docs)) \<and>
         (counts a c \<noteq> None \<longrightarrow> counts (fold processDocument docs a) c \<noteq> None) \<and>
         (totalSizes a c \<noteq> None \<longrightarrow> totalSizes (fold processDocument docs a) c \<noteq> None) \<and>
         (totalLengths a c \<noteq> None \<longrightarrow> totalLengths (fold processDocument docs a) c \<noteq> None) \<and>
         (totalScores a c \<noteq> None \<longrightarrow> totalScores (fold processDocument docs a) c \<noteq> None) \<and>
         (categoryOccurrences a c \<noteq> None \<longrightarrow>
            categoryOccurrences (fold processDocument docs a) c \<noteq> None)"
proof (induction docs arbitrary: a)
  case Nil
  then show ?case by simp
next
  case (Cons d docs)
  note step = processDocument_totals [OF assms, where d = d and a = a]
  show ?case
    using Cons.IH [of "processDocument d a"] step by simp
qed

lemma init_acc_zero:
  assumes "c \<in> set VALID_CATEGORIES"
  shows "counts init_acc c = Some 0" "totalSizes init_acc c = Some 0"
    "totalLengths init_acc c = Some 0" "totalScores init_acc c = Some 0"
    "categoryOccurrences init_acc c = Some 0"
  using assms by (auto simp: init_acc_def VALID_CATEGORIES_def)

lemma some_or0: "m c \<noteq> None \<Longrightarrow> m c = Some (or0 m c)"
  by (auto simp: or0_def)

lemma final_totals:
  fixes docs :: "document list"
  assumes c: "c \<in> set VALID_CATEGORIES"
  defines "a \<equiv> fold processDocument docs init_acc"
  shows "counts a c = Some (length (filter (\<lambda>d. docTop d = c) docs))"
    and "totalSizes a c = Some (sum_list (map sizeKB (filter (\<lambda>d. docTop d = c) docs)))"
    and "totalLengths a c = Some (sum_list (map contentLength (filter (\<lambda>d. docTop d = c) docs)))"
    and "totalScores a c = Some (sum_list (concat (map (scoresOf c) docs)))"
    and "categoryOccurrences a c = Some (length (concat (map (scoresOf c) docs)))"
proof -
  note t = fold_processDocument_totals [OF c, of docs init_acc]
  note z = init_acc_zero [OF c]
  have "counts a c \<noteq> None" using t z by (simp add: a_def)
  from some_or0 [of "counts a" c, OF this] t z
  show "counts a c = Some (length (filter (\<lambda>d. docTop d = c) docs))"
    by (simp add: a_def or0_def)
  have "totalSizes a c \<noteq> None" using t z by (simp add: a_def)
  from some_or0 [of "totalSizes a" c, OF this] t z
  show "totalSizes a c = Some (sum_list (map sizeKB (filter (\<lambda>d. docTop d = c) docs)))"
    by (simp add: a_def or0_def)
  have "totalLengths a c \<noteq> None" using t z by (simp add: a_def)
  from some_or0 [of "totalLengths a" c, OF this] t z
  show "totalLengths a c = Some (sum_list (map contentLength (filter (\<lambda>d. docTop d = c) docs)))"
    by (simp add: a_def or0_def)
  have "totalScores a c \<noteq> None" using t z by (simp add: a_def)
  from some_or0 [of "totalScores a" c, OF this] t z
  show "totalScores a c = Some (sum_list (concat (map (scoresOf c) docs)))"
    by (simp add: a_def or0_def)
  have "categoryOccurrences a c \<noteq> None" using t z by (simp add: a_def)
  from some_or0 [of "categoryOccurrences a" c, OF this] t z
  show "categoryOccurrences a c = Some (length (concat (map (scoresOf c) docs)))"
    by (simp add: a_def or0_def)
qed

lemma fold_upd_map:
  "fold (\<lambda>k m. m(k \<mapsto> f k)) ks m0 c = (if c \<in> set ks then Some (f c) else m0 c)"
  by (induction ks arbitrary: m0) auto

lemma real_sum_list: "real (sum_list (map f xs)) = sum_list (map (real \<circ> f) xs)"
  by (induction xs) simp_all

lemma guarded_quotient:
  "length xs = n \<Longrightarrow> s = sum_list xs \<Longrightarrow>
   (if gt0 (Some n) then js_quot (Some s) (Some n) else Some 0) = Some (average xs)"
  by (auto simp: gt0_def js_quot_def average_def)

lemma final_averages:
  fixes docs :: "document list"
  assumes c: "c \<in> set VALID_CATEGORIES"
  defines "a \<equiv> fold processDocument docs init_acc"
  shows "avgScores a c = Some (Some (average (concat (map (scoresOf c) docs))))"
    and "avgSizes a c = Some (Some (average (map sizeKB (filter (\<lambda>d. docTop d = c) docs))))"
    and "avgLengths a c =
           Some (Some (average (map (real \<circ> contentLength) (filter (\<lambda>d. docTop d = c) docs))))"
proof -
  note f = final_totals [OF c, of docs, folded a_def]
  let ?fl = "filter (\<lambda>d. docTop d = c) docs"
  have g1: "(if gt0 (Some (length (concat (map (scoresOf c) docs))))
             then js_quot (Some (sum_list (concat (map (scoresOf c) docs))))
                    (Some (length (concat (map (scoresOf c) docs))))
             else Some 0) = Some (average (concat (map (scoresOf c) docs)))"
    by (rule guarded_quotient) simp_all
  have g2: "(if gt0 (Some (length ?fl))
             then js_quot (Some (sum_list (map sizeKB ?fl))) (Some (length ?fl))
             else Some 0) = Some (average (map sizeKB ?fl))"
    by (rule guarded_quotient) simp_all
  have g3: "(if gt0 (Some (length ?fl))
             then js_quot (map_option real (Some (sum_list (map contentLength ?fl)))) (Some (length ?fl))
             else Some 0) = Some (average (map (real \<circ> contentLength) ?fl))"
    unfolding option.map by (rule guarded_quotient) (simp_all add: real_sum_list)
  show "avgScores a c = Some (Some (average (concat (map (scoresOf c) docs))))"
    unfolding avgScores_def fold_upd_map f g1 using c by simp
  show "avgSizes a c = Some (Some (average (map sizeKB ?fl)))"
    unfolding avgSizes_def fold_upd_map f g2 using c by simp
  show "avgLengths a c = Some (Some (average (map (real \<circ> contentLength) ?fl)))"
    unfolding avgLengths_def fold_upd_map f g3 using c by simp
qed

lemma fetchData_stats_fields:
  "\<exists>r. fetchData_stats docs = Inr r \<and>
       categoryCounts r = counts (fold processDocument docs init_acc) \<and>
       categoryAverageScores r = avgScores (fold processDocument docs init_acc) \<and>
       categoryAverageSizes r = avgSizes (fold processDocument docs init_acc) \<and>
       categoryAverageLengths r = avgLengths (fold processDocument docs init_acc)"
proof (cases "2 \<le> length docs")
  case True
  then have ne: "docs \<noteq> []" by auto
  then have ne': "map featureVector docs \<noteq> []" by simp
  have pca: "performPCA (map featureVector docs) = Inr (first_two_centered (map featureVector docs))"
    using performPCA_rect [OF ne' featureVectors_rect [OF ne]] .
  show ?thesis
    unfolding fetchData_stats_def using True pca
    by (simp add: Let_def featureVectors_fold_init)
next
  case False
  then show ?thesis
    unfolding fetchData_stats_def by (simp add: Let_def featureVectors_fold_init)
qed

lemma fetchData_stats_report:
  assumes c: "c \<in> set VALID_CATEGORIES"
  shows "\<exists>r. fetchData_stats docs = Inr r \<and>
           categoryCounts r c = Some (length (filter (\<lambda>d. docTop d = c) docs)) \<and>
           categoryAverageScores r c = Some (Some (average (concat (map (scoresOf c) docs)))) \<and>
           categoryAverageSizes r c =
             Some (Some (average (map sizeKB (filter (\<lambda>d. docTop d = c) docs)))) \<and>
           categoryAverageLengths r c =
             Some (Some (average (map (real \<circ> contentLength) (filter (\<lambda>d. docTop d = c) docs))))"
  using fetchData_stats_fields [of docs] final_totals(1) [OF c, of docs] final_averages [OF c, of docs]
  by auto


lemma fold_statsTopStep_valid:
  "fst t \<in> set VALID_CATEGORIES \<Longrightarrow> fst (fold statsTopStep p t) \<in> set VALID_CATEGORIES"
proof (induction p arbitrary: t)
  case Nil
  then show ?case by simp
next
  case (Cons e p)
  obtain k v where e: "e = (k, v)" by (cases e)
  obtain c w where t: "t = (c, w)" by (cases t)
  have "fst (statsTopStep e t) \<in> set VALID_CATEGORIES"
    using Cons.prems e t by simp
  from Cons.IH [OF this] show ?case by simp
qed

lemma docTop_valid: "docTop d \<in> set VALID_CATEGORIES"
proof -
  have o: "''Other'' \<in> set VALID_CATEGORIES" by (simp add: VALID_CATEGORIES_def)
  have "statsTop p \<in> set VALID_CATEGORIES" for p
    unfolding statsTop_def by (rule fold_statsTopStep_valid) (simp add: o)
  then show ?thesis using o by (simp add: docTop_def split: option.splits list.splits)
qed

lemma sum_indicator_distinct:
  "distinct cs \<Longrightarrow> x \<in> set cs \<Longrightarrow> sum_list (map (\<lambda>c. if x = c then 1 else 0) cs) = (1::nat)"
proof (induction cs)
  case Nil
  then show ?case by simp
next
  case (Cons c cs)
  show ?case
  proof (cases "x = c")
    case True
    then have "x \<notin> set cs" using Cons.prems by simp
    then have "sum_list (map (\<lambda>c. if x = c then 1 else 0) cs) = (0::nat)"
      by (induction cs) auto
    with True show ?thesis by simp
  next
    case False
    then show ?thesis using Cons by simp
  qed
qed

lemma sum_counts_partition:
  assumes "distinct cs" and "\<forall>d \<in> set docs. f d \<in> set cs"
  shows "sum_list (map (\<lambda>c. length (filter (\<lambda>d. f d = c) docs)) cs) = length docs"
  using assms(2)
proof (induction docs)
  case Nil
  then show ?case by simp
next
  case (Cons d docs)
  have "sum_list (map (\<lambda>c. length (filter (\<lambda>d. f d = c) (d # docs))) cs) =
        sum_list (map (\<lambda>c. (if f d = c then 1 else 0) + length (filter (\<lambda>d. f d = c) docs)) cs)"
    by (rule arg_cong [where f = sum_list], rule map_cong) simp_all
  also have "\<dots> = sum_list (map (\<lambda>c. if f d = c then 1 else 0) cs) +
        sum_list (map (\<lambda>c. length (filter (\<lambda>d. f d = c) docs)) cs)"
    by (simp add: sum_list_addf)
  also have "\<dots> = 1 + length docs"
    using sum_indicator_distinct [OF assms(1), of "f d"] Cons by simp
  finally show ?case by simp
qed

lemma distinct_VALID_CATEGORIES: "distinct VALID_CATEGORIES"
  by (simp add: VALID_CATEGORIES_def)

lemma counts_total:
  assumes "fetchData_stats docs = Inr r"
  shows "sum_list (map (or0 (categoryCounts r)) VALID_CATEGORIES) = length docs"
proof -
  have "or0 (categoryCounts r) c = length (filter (\<lambda>d. docTop d = c) docs)"
    if "c \<in> set VALID_CATEGORIES" for c
    using fetchData_stats_report [OF that, of docs] assms by (auto simp: or0_def)
  then have "map (or0 (categoryCounts r)) VALID_CATEGORIES =
      map (\<lambda>c. length (filter (\<lambda>d. docTop d = c) docs)) VALID_CATEGORIES"
    by simp
  moreover have "sum_list (map (\<lambda>c. length (filter (\<lambda>d. docTop d = c) docs)) VALID_CATEGORIES) =
      length docs"
    by (rule sum_counts_partition [OF distinct_VALID_CATEGORIES]) (simp add: docTop_valid)
  ultimately show ?thesis by (simp only:)
qed

text \<open>
  C2 (amended). For every document list, the empty one included, and every registered
  category \<open>c\<close>, the statistics succeed and report: the number of documents whose top
  category is \<open>c\<close> (a document without a mapping has top category \<open>Other\<close>); the average
  size in KB and the average content length over those documents; and the average
  confidence over every mapping entry for \<open>c\<close> in any document, not only in the
  documents whose top category is \<open>c\<close>. Each average is a finite number, and it is 0
  when its own divisor is 0 (\<open>average\<close> of the empty list).
\<close>

theorem statistics_counts_and_guarded_averages:
  assumes "c \<in> set VALID_CATEGORIES"
  shows "\<exists>r. fetchData_stats docs = Inr r \<and>
           categoryCounts r c = Some (length (filter (\<lambda>d. docTop d = c) docs)) \<and>
           categoryAverageScores r c = Some (Some (average (concat (map (scoresOf c) docs)))) \<and>
           categoryAverageSizes r c =
             Some (Some (average (map sizeKB (filter (\<lambda>d. docTop d = c) docs)))) \<and>
           categoryAverageLengths r c =
             Some (Some (average (map (real \<circ> contentLength) (filter (\<lambda>d. docTop d = c) docs))))"
  using assms by (rule fetchData_stats_report)

theorem statistics_counts_and_guarded_averages_witness:
  "\<exists>r. fetchData_stats [] = Inr r \<and>
       categoryCounts r ''Legal Document'' = Some 0 \<and>
       categoryAverageScores r ''Legal Document'' = Some (Some 0) \<and>
       categoryAverageSizes r ''Legal Document'' = Some (Some 0) \<and>
       categoryAverageLengths r ''Legal Document'' = Some (Some 0)"
proof -
  have c: "''Legal Document'' \<in> set VALID_CATEGORIES" by (simp add: VALID_CATEGORIES_def)
  show ?thesis
    using statistics_counts_and_guarded_averages [OF c, of "[]"] by (simp add: average_def)
qed

lemma stats_doc_top: "docTop stats_doc = ''Technical Documentation''"
  by (simp add: docTop_def statsTop_def stats_doc_def VALID_CATEGORIES_def)

text \<open>
  C2: one document with confidences 3/4 and 1/4. No document has \<open>Legal Document\<close> as
  its top category, yet the average confidence reported for it is 1/4, not 0.
\<close>

theorem average_confidence_counterexample:
  "\<not> isl (fetchData_stats [stats_doc]) \<and>
   categoryCounts (projr (fetchData_stats [stats_doc])) ''Legal Document'' = Some 0 \<and>
   categoryAverageScores (projr (fetchData_stats [stats_doc])) ''Legal Document'' = Some (Some (1/4))"
proof -
  have c: "''Legal Document'' \<in> set VALID_CATEGORIES" by (simp add: VALID_CATEGORIES_def)
  have s: "scoresOf ''Legal Document'' stats_doc = [1/4]"
    by (simp add: scoresOf_def stats_doc_def)
  show ?thesis
    using fetchData_stats_report [OF c, of "[stats_doc]"]
    by (auto simp: stats_doc_top s average_def)
qed

text \<open>
  C5 (amended). A document whose mapping is missing or empty is not skipped: wherever
  it stands in the list, it is counted under \<open>Other\<close> (that count is one more than
  without it), the counts of the other categories and all confidence averages stay as
  they are, and the counts of all categories add up to the number of documents. The
  statistics never abort; the report has no field counting skipped records.
\<close>

theorem unclassified_document_counted_as_other:
  assumes "category_prediction d = None \<or> category_prediction d = Some []"
  shows "\<exists>r r'. fetchData_stats (ds1 @ d # ds2) = Inr r \<and> fetchData_stats (ds1 @ ds2) = Inr r' \<and>
           categoryCounts r ''Other'' = map_option Suc (categoryCounts r' ''Other'') \<and>
           (\<forall>c \<in> set VALID_CATEGORIES. c \<noteq> ''Other'' \<longrightarrow> categoryCounts r c = categoryCounts r' c) \<and>
           (\<forall>c \<in> set VALID_CATEGORIES. categoryAverageScores r c = categoryAverageScores r' c) \<and>
           sum_list (map (or0 (categoryCounts r)) VALID_CATEGORIES) = length (ds1 @ d # ds2)"
proof -
  obtain r where r: "fetchData_stats (ds1 @ d # ds2) = Inr r"
    using fetchData_stats_fields by blast
  obtain r' where r': "fetchData_stats (ds1 @ ds2) = Inr r'"
    using fetchData_stats_fields by blast
  have dt: "docTop d = ''Other''" and sc: "scoresOf c d = []" for c
    using assms by (auto simp: docTop_def scoresOf_def)
  have o: "''Other'' \<in> set VALID_CATEGORIES" by (simp add: VALID_CATEGORIES_def)
  have rep: "categoryCounts r c = Some (length (filter (\<lambda>d. docTop d = c) (ds1 @ d # ds2))) \<and>
      categoryAverageScores r c = Some (Some (average (concat (map (scoresOf c) (ds1 @ d # ds2))))) \<and>
      categoryCounts r' c = Some (length (filter (\<lambda>d. docTop d = c) (ds1 @ ds2))) \<and>
      categoryAverageScores r' c = Some (Some (average (concat (map (scoresOf c) (ds1 @ ds2)))))"
    if "c \<in> set VALID_CATEGORIES" for c
    using fetchData_stats_report [OF that, of "ds1 @ d # ds2"]
      fetchData_stats_report [OF that, of "ds1 @ ds2"] r r' by auto
  have 1: "categoryCounts r ''Other'' = map_option Suc (categoryCounts r' ''Other'')"
    using rep [OF o] dt by simp
  have 2: "\<forall>c \<in> set VALID_CATEGORIES. c \<noteq> ''Other'' \<longrightarrow> categoryCounts r c = categoryCounts r' c"
    using rep dt by auto
  have 3: "\<forall>c \<in> set VALID_CATEGORIES. categoryAverageScores r c = categoryAverageScores r' c"
    using rep sc by simp
  show ?thesis using r r' 1 2 3 counts_total [OF r] by blast
qed

theorem unclassified_document_counted_as_other_witness:
  "\<exists>r r'. fetchData_stats [stats_doc, unclassified_doc] = Inr r \<and> fetchData_stats [stats_doc] = Inr r' \<and>
     categoryCounts r ''Other'' = map_option Suc (categoryCounts r' ''Other'') \<and>
     sum_list (map (or0 (categoryCounts r)) VALID_CATEGORIES) = 2"
proof -
  have h: "category_prediction unclassified_doc = None \<or> category_prediction unclassified_doc = Some []"
    by (simp add: unclassified_doc_def)
  show ?thesis
    using unclassified_document_counted_as_other [OF h, of "[stats_doc]" "[]"] by auto
qed

text \<open>
  C5: a single document without a mapping. It raises the count and the average size of
  \<open>Other\<close> from 0 to 1, so it is not excluded from the per-category statistics.
\<close>

theorem unclassified_document_not_skipped_counterexample:
  "\<not> isl (fetchData_stats [unclassified_doc]) \<and>
   categoryCounts (projr (fetchData_stats [unclassified_doc])) ''Other'' = Some 1 \<and>
   categoryAverageSizes (projr (fetchData_stats [unclassified_doc])) ''Other'' = Some (Some 1) \<and>
   categoryCounts (projr (fetchData_stats [])) ''Other'' = Some 0 \<and>
   categoryAverageSizes (projr (fetchData_stats [])) ''Other'' = Some (Some 0)"
proof -
  have o: "''Other'' \<in> set VALID_CATEGORIES" by (simp add: VALID_CATEGORIES_def)
  have t: "docTop unclassified_doc = ''Other''" by (simp add: docTop_def unclassified_doc_def)
  have k: "sizeKB unclassified_doc = 1" by (simp add: sizeKB_def unclassified_doc_def)
  show ?thesis
    using fetchData_stats_report [OF o, of "[unclassified_doc]"] fetchData_stats_report [OF o, of "[]"]
    by (auto simp: t k average_def)
qed


section \<open>Accuracy over the labelled documents\<close>










section \<open>Word clouds\<close>



































lemma cloud_example_tokens:
  "preprocessText (combinedText [cloud_doc_a]) =
     [''legal'', ''terms'', ''contract'', ''legal'', ''contract'']"
  by code_simp








section \<open>Duplicate uploads\<close>

lemma DuplicateFileError_Some:
  "DuplicateFileError e = Some (i, f) \<longleftrightarrow>
     truthy i \<and> truthy f \<and>
     i = js_or (optProp (app_details e) ''duplicate_id'')
               (optProp (optProp (app_details e) ''data'') ''duplicate_id'') \<and>
     f = js_or (optProp (app_details e) ''duplicate_filename'')
               (optProp (optProp (app_details e) ''data'') ''duplicate_filename'')"
  by (auto simp: DuplicateFileError_def Let_def)

lemma DuplicateFileError_no_details:
  "app_details e = JUndefined \<Longrightarrow> DuplicateFileError e = None"
  by (simp add: DuplicateFileError_def Let_def js_or_def)

lemma formatErrorMessage_409:
  assumes ax: "optProp err ''isAxiosError'' = JBool True"
    and resp: "truthy (optProp err ''response'')"
    and st: "optProp (optProp err ''response'') ''status'' = JNum 409"
    and fmt: "formatErrorMessage err = Inr a"
  shows "app_category a = VALIDATION \<and> app_originalError a = err \<and>
         (\<exists>d. extractField (js_or (optProp (optProp (optProp err ''response'') ''data'') ''detail'')
                                (optProp (optProp err ''response'') ''data''))
                  (optProp (optProp err ''response'') ''data'') ''details'' JNull = Inr d \<and>
              app_details a = js_or d (JObj [(''duplicate'', JBool True)]))"
proof -
  let ?rd = "optProp (optProp err ''response'') ''data''"
  let ?ed = "js_or (optProp ?rd ''detail'') ?rd"
  from fmt ax resp obtain m c d where
    m: "extractField ?ed ?rd ''message'' (JStr (js_String (js_or ?rd (optProp err ''message'')))) = Inr m"
    and c: "extractField ?ed ?rd ''error'' (JStr ''UNKNOWN_ERROR'') = Inr c"
    and d: "extractField ?ed ?rd ''details'' JNull = Inr d"
    by (auto simp: formatErrorMessage_def Let_def split: sum.splits)
  have a: "a = (if truthy d
        then (statusCase (JNum 409) m c d
               \<lparr> app_message = JStr ''An unexpected error occurred'', app_category = UNKNOWN,
                 app_code = JUndefined, app_details = JUndefined, app_originalError = JUndefined \<rparr>)
             \<lparr> app_details := d \<rparr>
        else statusCase (JNum 409) m c d
               \<lparr> app_message = JStr ''An unexpected error occurred'', app_category = UNKNOWN,
                 app_code = JUndefined, app_details = JUndefined, app_originalError = JUndefined \<rparr>)
      \<lparr> app_originalError := err \<rparr>"
    using fmt ax resp st m c d by (simp add: formatErrorMessage_def Let_def)
  have "app_category a = VALIDATION" "app_originalError a = err"
    "app_details a = js_or d (JObj [(''duplicate'', JBool True)])"
    unfolding a by (simp_all add: statusCase_def js_or_def)
  with d show ?thesis by blast
qed

lemma uploadFiles_catch_duplicate:
  assumes "uploadFiles_catch name ftype err = Inr st" and "isDuplicateFile st"
  shows "\<exists>m. error_value st = Some (Built \<lparr> app_message = m, app_category = VALIDATION,
            app_code = JUndefined, app_details = JUndefined, app_originalError = err \<rparr>)"
  using assms
  by (auto simp: uploadFiles_catch_def Let_def split: sum.splits if_splits)

text \<open>
  C8 (amended). The duplicate notice is rendered exactly when the error's details hold,
  directly or under \<^verbatim>\<open>data\<close>, a truthy \<^verbatim>\<open>duplicate_id\<close> and a truthy
  \<^verbatim>\<open>duplicate_filename\<close>, and it links to that id and shows that name. For a 409
  response, \<^verbatim>\<open>formatErrorMessage\<close> returns a validation error whose details are the
  \<^verbatim>\<open>details\<close> of the response when it has any and \<^verbatim>\<open>{duplicate: true}\<close> otherwise, so
  it carries the id and the name only when the response supplies them there. The error
  that \<^verbatim>\<open>uploadFiles\<close> builds for a duplicate has no details at all (it keeps the caught
  error as \<^verbatim>\<open>originalError\<close>), so the notice is never rendered for it.
\<close>

theorem duplicate_details_and_notice:
  "(DuplicateFileError e = Some (i, f) \<longleftrightarrow>
      truthy i \<and> truthy f \<and>
      i = js_or (optProp (app_details e) ''duplicate_id'')
                (optProp (optProp (app_details e) ''data'') ''duplicate_id'') \<and>
      f = js_or (optProp (app_details e) ''duplicate_filename'')
                (optProp (optProp (app_details e) ''data'') ''duplicate_filename'')) \<and>
   (optProp err ''isAxiosError'' = JBool True \<and> truthy (optProp err ''response'') \<and>
    optProp (optProp err ''response'') ''status'' = JNum 409 \<and> formatErrorMessage err = Inr a \<longrightarrow>
      app_category a = VALIDATION \<and> app_originalError a = err \<and>
      (\<exists>d. extractField (js_or (optProp (optProp (optProp err ''response'') ''data'') ''detail'')
                             (optProp (optProp err ''response'') ''data''))
               (optProp (optProp err ''response'') ''data'') ''details'' JNull = Inr d \<and>
           app_details a = js_or d (JObj [(''duplicate'', JBool True)]))) \<and>
   (uploadFiles_catch name ftype err = Inr st \<and> isDuplicateFile st \<longrightarrow>
      (\<exists>m. error_value st = Some (Built \<lparr> app_message = m, app_category = VALIDATION,
              app_code = JUndefined, app_details = JUndefined, app_originalError = err \<rparr>)) \<and>
      (\<forall>b. error_value st = Some (Built b) \<longrightarrow> DuplicateFileError b = None))"
proof -
  have 3: "(\<exists>m. error_value st = Some (Built \<lparr> app_message = m, app_category = VALIDATION,
              app_code = JUndefined, app_details = JUndefined, app_originalError = err \<rparr>)) \<and>
      (\<forall>b. error_value st = Some (Built b) \<longrightarrow> DuplicateFileError b = None)"
    if "uploadFiles_catch name ftype err = Inr st" "isDuplicateFile st"
  proof -
    from uploadFiles_catch_duplicate [OF that] obtain m where
      m: "error_value st = Some (Built \<lparr> app_message = m, app_category = VALIDATION,
              app_code = JUndefined, app_details = JUndefined, app_originalError = err \<rparr>)" by blast
    then have "DuplicateFileError b = None" if "error_value st = Some (Built b)" for b
      using that by (auto intro: DuplicateFileError_no_details)
    with m show ?thesis by blast
  qed
  show ?thesis
    using DuplicateFileError_Some [of e i f] formatErrorMessage_409 [of err a] 3 by blast
qed

lemma duplicate_error_formatted:
  "formatErrorMessage duplicate_error =
     Inr \<lparr> app_message = JStr ''Duplicate file'', app_category = VALIDATION,
           app_code = JStr ''DUPLICATE_RESOURCE'', app_details = JObj [(''duplicate'', JBool True)],
           app_originalError = duplicate_error \<rparr>"
  by code_simp

lemma duplicate_error_caught:
  "uploadFiles_catch ''b.pdf'' ''application/pdf'' duplicate_error =
     Inr \<lparr> isDuplicateFile = True,
           error_value = Some (Built
             \<lparr> app_message = JStr ''Document \"b.pdf\" has already been uploaded. Each document can only be uploaded once.'',
               app_category = VALIDATION, app_code = JUndefined, app_details = JUndefined,
               app_originalError = duplicate_error \<rparr>),
           fileValidationError = None \<rparr>"
  by code_simp

lemma duplicate_error_with_details_formatted:
  "formatErrorMessage duplicate_error_with_details =
     Inr \<lparr> app_message = JStr ''Duplicate file'', app_category = VALIDATION,
           app_code = JStr ''DUPLICATE_RESOURCE'',
           app_details = JObj [(''duplicate_id'', JNum 7), (''duplicate_filename'', JStr ''a.pdf'')],
           app_originalError = duplicate_error_with_details \<rparr>"
  by code_simp

theorem duplicate_details_and_notice_witness:
  "DuplicateFileError (projr (formatErrorMessage duplicate_error_with_details)) =
     Some (JNum 7, JStr ''a.pdf'') \<and>
   app_category (projr (formatErrorMessage duplicate_error_with_details)) = VALIDATION \<and>
   DuplicateFileError \<lparr> app_message = JStr ''Document \"b.pdf\" has already been uploaded. Each document can only be uploaded once.'',
       app_category = VALIDATION, app_code = JUndefined, app_details = JUndefined,
       app_originalError = duplicate_error \<rparr> = None"
proof -
  let ?a = "projr (formatErrorMessage duplicate_error_with_details)"
  let ?st = "projr (uploadFiles_catch ''b.pdf'' ''application/pdf'' duplicate_error)"
  let ?b = "\<lparr> app_message = JStr ''Document \"b.pdf\" has already been uploaded. Each document can only be uploaded once.'',
       app_category = VALIDATION, app_code = JUndefined, app_details = JUndefined,
       app_originalError = duplicate_error \<rparr>"
  have ax: "optProp duplicate_error_with_details ''isAxiosError'' = JBool True"
    and resp: "truthy (optProp duplicate_error_with_details ''response'')"
    and st: "optProp (optProp duplicate_error_with_details ''response'') ''status'' = JNum 409"
    by (simp_all add: duplicate_error_with_details_def)
  have fmt: "formatErrorMessage duplicate_error_with_details = Inr ?a"
    by (simp add: duplicate_error_with_details_formatted)
  have det: "app_details ?a = JObj [(''duplicate_id'', JNum 7), (''duplicate_filename'', JStr ''a.pdf'')]"
    by (simp add: duplicate_error_with_details_formatted)
  have up: "uploadFiles_catch ''b.pdf'' ''application/pdf'' duplicate_error = Inr ?st"
    "isDuplicateFile ?st" "error_value ?st = Some (Built ?b)"
    by (simp_all add: duplicate_error_caught)
  note t = duplicate_details_and_notice [of ?a "JNum 7" "JStr ''a.pdf''" duplicate_error_with_details ?a
      "''b.pdf''" "''application/pdf''" ?st]
  have "DuplicateFileError ?a = Some (JNum 7, JStr ''a.pdf'')"
    using t det by (simp add: js_or_def)
  moreover have "app_category ?a = VALIDATION" using t ax resp st fmt by blast
  moreover have "DuplicateFileError ?b = None"
    using duplicate_details_and_notice [of ?a "JNum 7" "JStr ''a.pdf''" duplicate_error ?a
      "''b.pdf''" "''application/pdf''" ?st] up by blast
  ultimately show ?thesis by blast
qed

text \<open>
  C8: a 409 response that names the existing document (id 7, \<open>a.pdf\<close>) under \<^verbatim>\<open>data\<close>.
  Neither the error \<^verbatim>\<open>formatErrorMessage\<close> returns nor the one \<^verbatim>\<open>uploadFiles\<close> builds
  carries the id or the name, and the notice is not rendered.
\<close>

theorem duplicate_error_without_id_counterexample:
  "optProp (optProp duplicate_body ''data'') ''duplicate_id'' = JNum 7 \<and>
   optProp (optProp duplicate_body ''data'') ''duplicate_filename'' = JStr ''a.pdf'' \<and>
   formatErrorMessage duplicate_error =
     Inr \<lparr> app_message = JStr ''Duplicate file'', app_category = VALIDATION,
           app_code = JStr ''DUPLICATE_RESOURCE'', app_details = JObj [(''duplicate'', JBool True)],
           app_originalError = duplicate_error \<rparr> \<and>
   uploadFiles_catch ''b.pdf'' ''application/pdf'' duplicate_error =
     Inr \<lparr> isDuplicateFile = True,
           error_value = Some (Built
             \<lparr> app_message = JStr ''Document \"b.pdf\" has already been uploaded. Each document can only be uploaded once.'',
               app_category = VALIDATION, app_code = JUndefined, app_details = JUndefined,
               app_originalError = duplicate_error \<rparr>),
           fileValidationError = None \<rparr> \<and>
   DuplicateFileError (projr (formatErrorMessage duplicate_error)) = None"
proof -
  have "optProp (optProp duplicate_body ''data'') ''duplicate_id'' = JNum 7"
    "optProp (optProp duplicate_body ''data'') ''duplicate_filename'' = JStr ''a.pdf''"
    by (simp_all add: duplicate_body_def)
  moreover have "DuplicateFileError (projr (formatErrorMessage duplicate_error)) = None"
    by (simp add: duplicate_error_formatted DuplicateFileError_def js_or_def)
  ultimately show ?thesis
    using duplicate_error_formatted duplicate_error_caught by simp
qed


end
